theory Spec2Isabelle
  imports Main "HOL-Library.Multiset"
begin

section \<open>Lines and the registry (class Line)\<close>

text \<open>
  A GEDCOM line carries a level, an xref, a tag, a value and its child lines (owned,
  in file order). Top-level records are Python objects compared by identity; they are
  named here by a number (\<open>iid\<close> for Individual objects, \<open>fid\<close> for Family objects).
  The registry \<open>_dict\<close> maps an xref string to the record object that declares it.
\<close>

datatype line = Line (level: nat) (xref: string) (tag: string) (val: string)
  (children_lines: "line list")

type_synonym iid = nat
type_synonym fid = nat

datatype error =
  KeyError | IndexError | ValueError | TypeError | AttributeError | MultipleReturnValues

text \<open>\<open>d[k]\<close> on a Python dict: KeyError when the key is missing.\<close>

definition getitem :: "('k \<rightharpoonup> 'v) \<Rightarrow> 'k \<Rightarrow> error + 'v" where
  "getitem d k = (case d k of None \<Rightarrow> Inl KeyError | Some v \<Rightarrow> Inr v)"

text \<open>\<open>Line.children_tags\<close>: the child lines whose tag matches, in file order.\<close>

fun children_tags_loop :: "string \<Rightarrow> line list \<Rightarrow> line list \<Rightarrow> line list" where
  "children_tags_loop t [] lines = lines"
| "children_tags_loop t (c # cs) lines =
     (if tag c = t then children_tags_loop t cs (lines @ [c])
      else children_tags_loop t cs lines)"

definition children_tags :: "line \<Rightarrow> string \<Rightarrow> line list" where
  "children_tags self t = children_tags_loop t (children_lines self) []"

text \<open>
  \<open>Line.children_tag_records\<close>: every matching child's value is looked up in the
  registry; the \<open>try ... except KeyError: pass\<close> skips a missing key, any other error
  would leave the loop.
\<close>

fun children_tag_records_loop ::
  "(string \<rightharpoonup> 'r) \<Rightarrow> line list \<Rightarrow> 'r list \<Rightarrow> error + 'r list" where
  "children_tag_records_loop d [] lines = Inr lines"
| "children_tag_records_loop d (e # es) lines =
     (case getitem d (val e) of
        Inr r \<Rightarrow> children_tag_records_loop d es (lines @ [r])
      | Inl KeyError \<Rightarrow> children_tag_records_loop d es lines
      | Inl err \<Rightarrow> Inl err)"

definition children_tag_records :: "(string \<rightharpoonup> 'r) \<Rightarrow> line \<Rightarrow> string \<Rightarrow> error + 'r list" where
  "children_tag_records d self t = children_tag_records_loop d (children_tags self t) []"

text \<open>
  The spec's wording of the same operation (\<open>records_referenced_by_tag\<close>): of the child
  lines with the tag, in file order, those whose value the registry knows, each replaced
  by the record it names.
\<close>

definition records_referenced_by_tag :: "(string \<rightharpoonup> 'r) \<Rightarrow> line \<Rightarrow> string \<Rightarrow> 'r list" where
  "records_referenced_by_tag d self t =
     List.map_filter (\<lambda>e. d (val e)) (filter (\<lambda>c. tag c = t) (children_lines self))"

section \<open>Records (classes Record, Individual, Family)\<close>

text \<open>
  Modelled from the spec: the \<open>events\<close> module (class \<open>Event\<close>) is not part of the
  sources; an event is built from one event line and exposes no more than that here.
\<close>

datatype event = Event (event_line: line)

text \<open>\<open>Record._parse_generic_event_list\<close>\<close>

definition parse_generic_event_list :: "line \<Rightarrow> string \<Rightarrow> event list" where
  "parse_generic_event_list self t = map Event (children_tags self t)"

text \<open>
  The attributes an Individual and a Family hold after \<open>_init\<close>. References to other
  records are object references: a family link of an individual holds Family objects and a
  member link of a family holds Individual objects (the registry is read at FAMC and FAMS
  values as a table of Family objects, at HUSB, WIFE and CHIL values as a table of
  Individual objects).
\<close>

record individual =
  i_line :: line
  i_parent_families :: "fid list"
  i_families :: "fid list"
  birth_events :: "event list"
  death_events :: "event list"
  i_other_events :: "event list"

record family =
  f_line :: line
  f_husband :: "iid option"
  f_wife :: "iid option"
  f_children :: "iid list"
  marriage_events :: "event list"
  f_other_events :: "event list"

text \<open>The object store: what each Individual and each Family object holds.\<close>

record gedcom =
  individual_at :: "iid \<Rightarrow> individual"
  family_at :: "fid \<Rightarrow> family"

text \<open>\<open>Individual.get_families\<close>, \<open>Individual.get_parent_families\<close>\<close>

definition get_families :: "(string \<rightharpoonup> fid) \<Rightarrow> line \<Rightarrow> error + fid list" where
  "get_families d self = children_tag_records d self ''FAMS''"

definition get_parent_families :: "(string \<rightharpoonup> fid) \<Rightarrow> line \<Rightarrow> error + fid list" where
  "get_parent_families d self = children_tag_records d self ''FAMC''"

definition individual_event_types :: "string list" where
  "individual_event_types =
     [''ADOP'', ''BAPM'', ''BARM'', ''BASM'', ''BLES'', ''BURI'',
      ''CENS'', ''CHR'', ''CHRA'', ''CONF'', ''CREM'', ''EMIG'',
      ''FCOM'', ''GRAD'', ''IMMI'', ''NATU'', ''ORDN'', ''RETI'',
      ''PROB'', ''WILL'', ''EVEN'']"

definition family_event_types :: "string list" where
  "family_event_types =
     [''ANUL'', ''CENS'', ''DIV'', ''DIVF'', ''ENGA'', ''MARB'',
      ''MARC'', ''MARL'', ''MARS'', ''EVEN'']"

text \<open>\<open>Individual._init\<close>: the attributes computed once all lines are parsed.\<close>

definition Individual_init :: "(string \<rightharpoonup> fid) \<Rightarrow> line \<Rightarrow> error + individual" where
  "Individual_init d self =
     (case get_parent_families d self of
        Inl err \<Rightarrow> Inl err
      | Inr pfs \<Rightarrow>
          (case get_families d self of
             Inl err \<Rightarrow> Inl err
           | Inr fs \<Rightarrow>
               Inr \<lparr> i_line = self, i_parent_families = pfs, i_families = fs,
                     birth_events = parse_generic_event_list self ''BIRT'',
                     death_events = parse_generic_event_list self ''DEAT'',
                     i_other_events =
                       concat (map (parse_generic_event_list self) individual_event_types) \<rparr>))"

text \<open>
  \<open>Family._init\<close>: \<open>records[0]\<close> under \<open>try ... except IndexError\<close> gives None for an
  empty list.
\<close>

definition first_or_None :: "'a list \<Rightarrow> 'a option" where
  "first_or_None rs = (case rs of [] \<Rightarrow> None | r # _ \<Rightarrow> Some r)"

definition Family_init :: "(string \<rightharpoonup> iid) \<Rightarrow> line \<Rightarrow> error + family" where
  "Family_init d self =
     (case children_tag_records d self ''HUSB'' of
        Inl err \<Rightarrow> Inl err
      | Inr hs \<Rightarrow>
          (case children_tag_records d self ''WIFE'' of
             Inl err \<Rightarrow> Inl err
           | Inr ws \<Rightarrow>
               (case children_tag_records d self ''CHIL'' of
                  Inl err \<Rightarrow> Inl err
                | Inr cs \<Rightarrow>
                    Inr \<lparr> f_line = self, f_husband = first_or_None hs,
                          f_wife = first_or_None ws, f_children = cs,
                          marriage_events = parse_generic_event_list self ''MARR'',
                          f_other_events =
                            concat (map (parse_generic_event_list self) family_event_types) \<rparr>)))"

section \<open>Accessors\<close>

text \<open>
  Methods of Individual keep their names; a method of Family that shares its name with
  one of Individual carries the prefix \<open>fam_\<close>, and \<open>Individual.family\<close> is
  \<open>family_of\<close>. Every method takes the object store and the object it is called on.
\<close>

definition parent_families :: "gedcom \<Rightarrow> iid \<Rightarrow> fid list" where
  "parent_families db self = i_parent_families (individual_at db self)"

definition families :: "gedcom \<Rightarrow> iid \<Rightarrow> fid list" where
  "families db self = i_families (individual_at db self)"

definition husband :: "gedcom \<Rightarrow> fid \<Rightarrow> iid option" where
  "husband db self = f_husband (family_at db self)"

definition wife :: "gedcom \<Rightarrow> fid \<Rightarrow> iid option" where
  "wife db self = f_wife (family_at db self)"

text \<open>\<open>Family.children\<close>\<close>

definition fam_children :: "gedcom \<Rightarrow> fid \<Rightarrow> iid list" where
  "fam_children db self = f_children (family_at db self)"

text \<open>
  \<open>Individual.parent_family\<close> and \<open>Individual.family\<close>: None for no family, the family
  when there is one, MultipleReturnValues (the spec's AmbiguousResult) for more.
\<close>

definition parent_family :: "gedcom \<Rightarrow> iid \<Rightarrow> error + fid option" where
  "parent_family db self =
     (if length (parent_families db self) = 0 then Inr None
      else if length (parent_families db self) = 1 then Inr (Some (parent_families db self ! 0))
      else if length (parent_families db self) > 1 then Inl MultipleReturnValues
      else Inr None)"

definition family_of :: "gedcom \<Rightarrow> iid \<Rightarrow> error + fid option" where
  "family_of db self =
     (if length (families db self) = 0 then Inr None
      else if length (families db self) = 1 then Inr (Some (families db self ! 0))
      else if length (families db self) > 1 then Inl MultipleReturnValues
      else Inr None)"

text \<open>
  \<open>Individual.father\<close> and \<open>Individual.mother\<close> return one Individual when the list of
  candidates has one element, and the list itself otherwise.
\<close>

datatype one_or_list = One iid | Listed "iid list"

fun fathers_loop :: "gedcom \<Rightarrow> fid list \<Rightarrow> iid list \<Rightarrow> iid list" where
  "fathers_loop db [] fathers = fathers"
| "fathers_loop db (f # fs) fathers =
     (case husband db f of
        Some h \<Rightarrow> fathers_loop db fs (fathers @ [h])
      | None \<Rightarrow> fathers_loop db fs fathers)"

definition father :: "gedcom \<Rightarrow> iid \<Rightarrow> error + one_or_list" where
  "father db self =
     (let fathers = fathers_loop db (parent_families db self) []
      in if length fathers = 1 then Inr (One (fathers ! 0)) else Inr (Listed fathers))"





text \<open>\<open>Individual.birth\<close>, \<open>Individual.death\<close>, \<open>Family.marriage\<close>\<close>

definition birth :: "gedcom \<Rightarrow> iid \<Rightarrow> error + event option" where
  "birth db self =
     (if length (birth_events (individual_at db self)) = 0 then Inr None
      else Inr (Some (birth_events (individual_at db self) ! 0)))"

definition death :: "gedcom \<Rightarrow> iid \<Rightarrow> error + event option" where
  "death db self =
     (if length (death_events (individual_at db self)) = 0 then Inr None
      else Inr (Some (death_events (individual_at db self) ! 0)))"

text \<open>\<open>marriage_events[0]\<close> with no guard: IndexError on an empty list.\<close>

definition marriage :: "gedcom \<Rightarrow> fid \<Rightarrow> error + event" where
  "marriage db self =
     (case marriage_events (family_at db self) of
        [] \<Rightarrow> Inl IndexError
      | e # _ \<Rightarrow> Inr e)"

text \<open>\<open>Individual.children\<close>\<close>

definition children :: "gedcom \<Rightarrow> iid \<Rightarrow> iid list" where
  "children db self = concat (map (fam_children db) (families db self))"

text \<open>\<open>Individual.siblings\<close>\<close>

definition siblings :: "gedcom \<Rightarrow> iid \<Rightarrow> iid list" where
  "siblings db self =
     concat (map (\<lambda>f. filter (\<lambda>child. child \<noteq> self) (fam_children db f))
       (parent_families db self))"

text \<open>
  \<open>Family.parents\<close>: the husband, then the wife, each when present (a record object is
  always true as a condition).
\<close>

definition fam_parents :: "gedcom \<Rightarrow> fid \<Rightarrow> iid list" where
  "fam_parents db self =
     (case husband db self of None \<Rightarrow> [] | Some h \<Rightarrow> [h]) @
     (case wife db self of None \<Rightarrow> [] | Some w \<Rightarrow> [w])"

text \<open>\<open>Individual.parents\<close>\<close>

definition parents :: "gedcom \<Rightarrow> iid \<Rightarrow> iid list" where
  "parents db self = concat (map (fam_parents db) (parent_families db self))"

section \<open>Relationship engine: ancestry\<close>

text \<open>
  The searches below recurse or loop without a bound of their own. A call that returns
  \<open>v\<close> has the value \<open>Some v\<close>; a call whose recursion or loop never ends has the
  value \<open>None\<close> (CPython cuts an endless recursion off with a RuntimeError once its
  stack limit is reached: no value is returned either way).
\<close>

text \<open>
  \<open>list(set(xs) & set(ys))\<close>: the elements common to both lists, each once. Python lists
  them in an order that depends on the objects' hashes; the model lists them in one fixed
  order, and the results below are compared as sets or taken where the intersection has at
  most one element.
\<close>

definition set_intersection_list :: "'a list \<Rightarrow> 'a list \<Rightarrow> 'a list" where
  "set_intersection_list xs ys = filter (\<lambda>x. x \<in> set ys) (remdups xs)"

text \<open>\<open>Individual.mutual_parent_families\<close>, \<open>Individual.is_sibling\<close>\<close>

definition mutual_parent_families :: "gedcom \<Rightarrow> iid \<Rightarrow> iid \<Rightarrow> fid list" where
  "mutual_parent_families db self candidate =
     set_intersection_list (parent_families db self) (parent_families db candidate)"

definition is_sibling :: "gedcom \<Rightarrow> iid \<Rightarrow> iid \<Rightarrow> bool" where
  "is_sibling db self candidate =
     (if mutual_parent_families db self candidate \<noteq> [] then True else False)"

text \<open>\<open>Individual.is_parent\<close>\<close>

definition is_parent :: "gedcom \<Rightarrow> iid \<Rightarrow> iid \<Rightarrow> bool" where
  "is_parent db self candidate = (if candidate \<in> set (parents db self) then True else False)"

text \<open>
  \<open>Individual.is_ancestor\<close>. The loop over the parents asks each parent in turn (the
  function \<open>f\<close>) and stops at the first that answers True.
\<close>

fun is_ancestor_loop :: "(iid \<Rightarrow> bool option) \<Rightarrow> iid list \<Rightarrow> bool option" where
  "is_ancestor_loop f [] = Some False"
| "is_ancestor_loop f (parent # ps) =
     Option.bind (f parent) (\<lambda>b. if b then Some True else is_ancestor_loop f ps)"

lemma is_ancestor_loop_mono [partial_function_mono]:
  assumes "\<And>x. mono_option (\<lambda>f. F f x)"
  shows "mono_option (\<lambda>f. is_ancestor_loop (F f) xs)"
proof (induction xs)
  case Nil
  show ?case by (simp add: option.const_mono)
next
  case (Cons x xs)
  show ?case unfolding is_ancestor_loop.simps
    by (intro partial_function_mono assms Cons.IH)
qed

partial_function (option) is_ancestor :: "gedcom \<Rightarrow> iid \<Rightarrow> iid \<Rightarrow> bool option" where
  "is_ancestor db self candidate =
     (if is_parent db self candidate then Some True
      else is_ancestor_loop (\<lambda>parent. is_ancestor db parent candidate) (parents db self))"

text \<open>
  \<open>Individual.distance_to_ancestor\<close>: the \<open>while\<close> loop, with the current generation
  and the distance as its state. The inner result is Python's: a distance, or None.
\<close>

partial_function (option) distance_loop ::
  "gedcom \<Rightarrow> iid \<Rightarrow> iid list \<Rightarrow> nat \<Rightarrow> nat option option" where
  "distance_loop db ancestor ancestor_list distance =
     (if ancestor_list \<noteq> [] then
        (if ancestor \<in> set ancestor_list then Some (Some distance)
         else distance_loop db ancestor (concat (map (parents db) ancestor_list)) (distance + 1))
      else Some None)"

definition distance_to_ancestor :: "gedcom \<Rightarrow> iid \<Rightarrow> iid \<Rightarrow> nat option option" where
  "distance_to_ancestor db self ancestor = distance_loop db ancestor [self] 0"

text \<open>
  The generations of the spec: generation 0 is the given list, the next generation is
  the parents of all members of the current one, in order and with repetitions.
\<close>

fun generation :: "gedcom \<Rightarrow> nat \<Rightarrow> iid list \<Rightarrow> iid list" where
  "generation db 0 xs = xs"
| "generation db (Suc n) xs = generation db n (concat (map (parents db) xs))"

section \<open>Relationship engine: ancestor families\<close>

text \<open>\<open>Family.parent_families\<close>\<close>

definition fam_parent_families :: "gedcom \<Rightarrow> fid \<Rightarrow> fid list" where
  "fam_parent_families db self =
     (case husband db self of
        None \<Rightarrow> []
      | Some h \<Rightarrow> (if parent_families db h \<noteq> [] then parent_families db h else [])) @
     (case wife db self of
        None \<Rightarrow> []
      | Some w \<Rightarrow> (if parent_families db w \<noteq> [] then parent_families db w else []))"

text \<open>
  \<open>Family._ancestor_families_with_distance\<close>: first every parent family with the given
  distance, then, family by family, what the recursive calls return.
\<close>

fun collect :: "('a \<Rightarrow> 'b list option) \<Rightarrow> 'a list \<Rightarrow> 'b list option" where
  "collect f [] = Some []"
| "collect f (x # xs) =
     Option.bind (f x) (\<lambda>r. Option.bind (collect f xs) (\<lambda>rest. Some (r @ rest)))"

lemma collect_mono [partial_function_mono]:
  assumes "\<And>x. mono_option (\<lambda>f. F f x)"
  shows "mono_option (\<lambda>f. collect (F f) xs)"
proof (induction xs)
  case Nil
  show ?case by (simp add: option.const_mono)
next
  case (Cons x xs)
  show ?case unfolding collect.simps
    by (intro partial_function_mono assms Cons.IH)
qed

partial_function (option) fam_ancestor_families_with_distance ::
  "gedcom \<Rightarrow> fid \<Rightarrow> nat \<Rightarrow> (fid \<times> nat) list option" where
  "fam_ancestor_families_with_distance db self distance =
     Option.bind
       (collect (\<lambda>fam. fam_ancestor_families_with_distance db fam (distance + 1))
          (fam_parent_families db self))
       (\<lambda>anc. Some (map (\<lambda>fam. (fam, distance)) (fam_parent_families db self) @ anc))"

text \<open>
  \<open>Individual.ancestor_families_with_distance\<close>: every parent family with distance 0,
  followed by its ancestor families from distance 1 on; the list is then sorted by
  distance (\<open>sorted\<close> is stable, as \<open>sort_key\<close> is).
\<close>

definition ancestor_families_with_distance :: "gedcom \<Rightarrow> iid \<Rightarrow> (fid \<times> nat) list option" where
  "ancestor_families_with_distance db self =
     Option.bind
       (collect
          (\<lambda>fam. Option.bind (fam_ancestor_families_with_distance db fam 1)
                   (\<lambda>anc. Some ((fam, 0) # anc)))
          (parent_families db self))
       (\<lambda>ancestor_families. Some (sort_key snd ancestor_families))"

text \<open>
  The generations of families: generation 0 is the given list of families, the next
  generation lists the parent families of every family of the current one.
\<close>

fun fam_generation :: "gedcom \<Rightarrow> nat \<Rightarrow> fid list \<Rightarrow> fid list" where
  "fam_generation db 0 fs = fs"
| "fam_generation db (Suc n) fs = fam_generation db n (concat (map (fam_parent_families db) fs))"

text \<open>
  The ancestor families of an individual met in the first \<open>n\<close> generations above it,
  each paired with the number of its generation.
\<close>

definition families_by_generation :: "gedcom \<Rightarrow> nat \<Rightarrow> iid \<Rightarrow> (fid \<times> nat) set" where
  "families_by_generation db n self =
     {(f, k). k < n \<and> f \<in> set (fam_generation db k (parent_families db self))}"

text \<open>
  The breadth-first listing of the spec, as the code produces it (there is no visited
  set): the given families with distance \<open>d\<close>, then the parent families of each of them
  with distance \<open>d + 1\<close>, and so on for \<open>n\<close> generations. A family is listed once for
  every upward path that reaches it.
\<close>

fun families_listed :: "gedcom \<Rightarrow> nat \<Rightarrow> nat \<Rightarrow> fid list \<Rightarrow> (fid \<times> nat) list" where
  "families_listed db 0 d fs = []"
| "families_listed db (Suc n) d fs =
     map (\<lambda>f. (f, d)) fs @
     families_listed db n (Suc d) (concat (map (fam_parent_families db) fs))"

text \<open>The least number of a generation that holds the family.\<close>

definition minimal_distance :: "gedcom \<Rightarrow> iid \<Rightarrow> fid \<Rightarrow> nat" where
  "minimal_distance db self f =
     (LEAST k. f \<in> set (fam_generation db k (parent_families db self)))"

section \<open>Relationship engine: common ancestors\<close>

text \<open>\<open>min(xs, key=k)\<close>: the first element with the least key; ValueError on an empty list.\<close>

fun min_key :: "('a \<Rightarrow> nat) \<Rightarrow> 'a list \<Rightarrow> error + 'a" where
  "min_key k [] = Inl ValueError"
| "min_key k (x # xs) = Inr (fold (\<lambda>y m. if k y < k m then y else m) xs x)"

text \<open>
  The second half of \<open>Individual.common_ancestor_families\<close>, from the two lists of
  ancestor families on.
\<close>

definition closest_common :: "(fid \<times> nat) list \<Rightarrow> (fid \<times> nat) list \<Rightarrow> error + fid list" where
  "closest_common my_ancestors his_ancestors =
     (let my_anc_without_dist = map fst my_ancestors;
          his_anc_without_dist = map fst his_ancestors;
          common_without_dist = set_intersection_list my_anc_without_dist his_anc_without_dist
      in if common_without_dist = [] then Inr []
         else
           (let common_with_my_dist =
                  filter (\<lambda>(fam, dist). fam \<in> set common_without_dist) my_ancestors
            in case min_key snd common_with_my_dist of
                 Inl err \<Rightarrow> Inl err
               | Inr (fam, min_dist) \<Rightarrow>
                   Inr (map fst (filter (\<lambda>(fam, dist). dist = min_dist) common_with_my_dist))))"

text \<open>\<open>Individual.common_ancestor_families\<close>; the relative may be None.\<close>

definition common_ancestor_families ::
  "gedcom \<Rightarrow> iid \<Rightarrow> iid option \<Rightarrow> (error + fid list) option" where
  "common_ancestor_families db self relative =
     (case relative of
        None \<Rightarrow> Some (Inr [])
      | Some rel \<Rightarrow>
          (let mutual = mutual_parent_families db self rel
           in if mutual \<noteq> [] then Some (Inr mutual)
              else
                (case ancestor_families_with_distance db self of
                   None \<Rightarrow> None
                 | Some my_ancestors \<Rightarrow>
                     if my_ancestors = [] then Some (Inr [])
                     else
                       (case ancestor_families_with_distance db rel of
                          None \<Rightarrow> None
                        | Some his_ancestors \<Rightarrow>
                            if his_ancestors = [] then Some (Inr [])
                            else Some (closest_common my_ancestors his_ancestors)))))"

text \<open>\<open>Individual.common_ancestors\<close>: the parents of those families, each listed once.\<close>

fun append_new :: "'a list \<Rightarrow> 'a list \<Rightarrow> 'a list" where
  "append_new acc [] = acc"
| "append_new acc (a # as) = (if a \<in> set acc then append_new acc as else append_new (acc @ [a]) as)"

definition common_ancestors :: "gedcom \<Rightarrow> iid \<Rightarrow> iid option \<Rightarrow> (error + iid list) option" where
  "common_ancestors db self relative =
     (case relative of
        None \<Rightarrow> Some (Inr [])
      | Some rel \<Rightarrow>
          (case common_ancestor_families db self relative of
             None \<Rightarrow> None
           | Some (Inl err) \<Rightarrow> Some (Inl err)
           | Some (Inr fams) \<Rightarrow> Some (Inr (append_new [] (concat (map (fam_parents db) fams))))))"

text \<open>
  The spec's wording of the result. The families common to the ancestor families of \<open>a\<close>
  (met in its first \<open>n\<close> generations) and of \<open>b\<close> (in its first \<open>m\<close>), and, of those,
  the ones that \<open>a\<close> meets at the least distance at which it meets any of them.
\<close>

definition common_families :: "gedcom \<Rightarrow> nat \<Rightarrow> iid \<Rightarrow> nat \<Rightarrow> iid \<Rightarrow> fid set" where
  "common_families db n a m b =
     fst ` families_by_generation db n a \<inter> fst ` families_by_generation db m b"

definition closest_families :: "gedcom \<Rightarrow> nat \<Rightarrow> iid \<Rightarrow> nat \<Rightarrow> iid \<Rightarrow> fid set" where
  "closest_families db n a m b =
     {f \<in> common_families db n a m b.
        (f, Min {d. \<exists>g \<in> common_families db n a m b. (g, d) \<in> families_by_generation db n a})
          \<in> families_by_generation db n a}"

section \<open>Relationship engine: paths\<close>

text \<open>
  \<open>Individual.down_path\<close>. The distance is a number or None (no bound). Inside the loop
  over the children, \<open>f\<close> is the recursive call; the first path found is returned with the
  ancestor put in front. The inner result is Python's: a path, or None.
\<close>

fun down_path_loop ::
  "(iid \<Rightarrow> iid list option option) \<Rightarrow> iid \<Rightarrow> iid list \<Rightarrow> iid list option option" where
  "down_path_loop f ancestor [] = Some None"
| "down_path_loop f ancestor (c # cs) =
     Option.bind (f c)
       (\<lambda>path. case path of
                 Some p \<Rightarrow> Some (Some (ancestor # p))
               | None \<Rightarrow> down_path_loop f ancestor cs)"

lemma down_path_loop_mono [partial_function_mono]:
  assumes "\<And>x. mono_option (\<lambda>f. F f x)"
  shows "mono_option (\<lambda>f. down_path_loop (F f) a xs)"
proof (induction xs)
  case Nil
  show ?case by (simp add: option.const_mono)
next
  case (Cons x xs)
  show ?case unfolding down_path_loop.simps
  proof (intro partial_function_mono assms)
    fix path :: "iid list option"
    show "mono_option (\<lambda>f. case path of
                                Some p \<Rightarrow> Some (Some (a # p))
                              | None \<Rightarrow> down_path_loop (F f) a xs)"
      by (cases path) (simp_all add: option.const_mono Cons.IH)
  qed
qed

partial_function (option) down_path ::
  "gedcom \<Rightarrow> iid \<Rightarrow> iid \<Rightarrow> nat option \<Rightarrow> iid list option option" where
  "down_path db ancestor descendant distance =
     (if (case distance of None \<Rightarrow> False | Some d \<Rightarrow> d \<le> 0) then Some None
      else if ancestor = descendant then Some (Some [ancestor])
      else if children db ancestor = [] then Some None
      else if descendant \<in> set (children db ancestor) then Some (Some [ancestor, descendant])
      else down_path_loop
             (\<lambda>c. down_path db c descendant
                    (case distance of None \<Rightarrow> None | Some d \<Rightarrow> Some (d - 1)))
             ancestor (children db ancestor))"

text \<open>
  A step of a path is a Python tuple \<open>(person, label)\<close> or a Python list
  \<open>[person, label]\<close>; the source builds both. Assigning to an item of a tuple raises
  TypeError.
\<close>

datatype step = PyTuple iid string | PyList iid string

fun step_person :: "step \<Rightarrow> iid" where
  "step_person (PyTuple p l) = p"
| "step_person (PyList p l) = p"

fun step_label :: "step \<Rightarrow> string" where
  "step_label (PyTuple p l) = l"
| "step_label (PyList p l) = l"

fun setitem_label :: "step \<Rightarrow> string \<Rightarrow> error + step" where
  "setitem_label (PyTuple p l) new = Inl TypeError"
| "setitem_label (PyList p l) new = Inr (PyList p new)"

text \<open>\<open>xs[i]\<close> and \<open>xs[-1]\<close> on a Python list.\<close>

definition index :: "'a list \<Rightarrow> nat \<Rightarrow> error + 'a" where
  "index xs i = (if i < length xs then Inr (xs ! i) else Inl IndexError)"

definition index_last :: "'a list \<Rightarrow> error + 'a" where
  "index_last xs = (if xs = [] then Inl IndexError else Inr (last xs))"

text \<open>The loop that copies a path up to and including the first occurrence of \<open>x\<close>.\<close>

fun upto_first :: "iid \<Rightarrow> iid list \<Rightarrow> iid list" where
  "upto_first x [] = []"
| "upto_first x (step # rest) = (if step = x then [step] else step # upto_first x rest)"

text \<open>
  The \<open>if compact:\<close> block of \<open>Individual.path_to_relative\<close>. An IndexError raised by
  \<open>full_path[-1]\<close> or \<open>his_path[1]\<close> is caught and the common ancestor is appended;
  any other error leaves the function.
\<close>

definition compact_block :: "gedcom \<Rightarrow> iid \<Rightarrow> step list \<Rightarrow> iid list \<Rightarrow> error + step list" where
  "compact_block db common_ancestor full_path his_path =
     (case index_last full_path of
        Inl IndexError \<Rightarrow> Inr (full_path @ [PyList common_ancestor ''child''])
      | Inl err \<Rightarrow> Inl err
      | Inr last_step \<Rightarrow>
          (case index his_path 1 of
             Inl IndexError \<Rightarrow> Inr (full_path @ [PyList common_ancestor ''child''])
           | Inl err \<Rightarrow> Inl err
           | Inr his_first \<Rightarrow>
               if is_sibling db (step_person last_step) his_first then
                 (case setitem_label last_step ''sibling'' of
                    Inl IndexError \<Rightarrow> Inr (full_path @ [PyList common_ancestor ''child''])
                  | Inl err \<Rightarrow> Inl err
                  | Inr s \<Rightarrow> Inr (butlast full_path @ [s]))
               else Inr (full_path @ [PyList common_ancestor ''child''])))"

text \<open>
  \<open>Individual.path_to_relative\<close> from the two \<open>down_path\<close> results on: \<open>reverse\<close> on
  None raises AttributeError.
\<close>

definition path_from_segments ::
  "gedcom \<Rightarrow> iid \<Rightarrow> iid \<Rightarrow> iid \<Rightarrow> iid list option \<Rightarrow> iid list option \<Rightarrow> bool \<Rightarrow>
   error + step list option" where
  "path_from_segments db self relative common_ancestor my_down his_down compact =
     (case my_down of
        None \<Rightarrow> Inl AttributeError
      | Some my_path0 \<Rightarrow>
          (case his_down of
             None \<Rightarrow> Inl AttributeError
           | Some his_path0 \<Rightarrow>
               (let my_path1 = rev my_path0;
                    his_path1 = rev his_path0;
                    (my_path2, his_path2) =
                      (if relative \<in> set my_path1
                       then (upto_first relative my_path1, [relative])
                       else (my_path1, his_path1));
                    (my_path, his_path3) =
                      (if self \<in> set his_path2
                       then ([self], upto_first self his_path2)
                       else (my_path2, his_path2));
                    his_path = rev his_path3;
                    full_path =
                      PyTuple self ''start'' # map (\<lambda>step. PyTuple step ''parent'') (drop 1 my_path)
                in case (if compact then compact_block db common_ancestor full_path his_path
                         else Inr full_path) of
                     Inl err \<Rightarrow> Inl err
                   | Inr full_path' \<Rightarrow>
                       Inr (Some (full_path' @
                                  map (\<lambda>step. PyTuple step ''child'') (drop 1 his_path))))))"

text \<open>\<open>Individual.path_to_relative\<close>; the inner result is a path, or Python's None.\<close>

definition path_to_relative ::
  "gedcom \<Rightarrow> iid \<Rightarrow> iid \<Rightarrow> bool \<Rightarrow> (error + step list option) option" where
  "path_to_relative db self relative compact =
     (if relative = self then Some (Inr (Some [PyTuple self ''start'']))
      else if relative \<in> set (parents db self)
        then Some (Inr (Some [PyTuple self ''start'', PyTuple relative ''parent'']))
      else if relative \<in> set (children db self)
        then Some (Inr (Some [PyTuple self ''start'', PyTuple relative ''child'']))
      else
        (case common_ancestors db self (Some relative) of
           None \<Rightarrow> None
         | Some (Inl err) \<Rightarrow> Some (Inl err)
         | Some (Inr cas) \<Rightarrow>
             if cas = [] then Some (Inr None)
             else
               (let common_ancestor = cas ! 0
                in case (if self \<in> set cas then Some (Some [])
                         else Option.bind (distance_to_ancestor db self common_ancestor)
                                (down_path db common_ancestor self)) of
                     None \<Rightarrow> None
                   | Some my_down \<Rightarrow>
                       (case (if relative \<in> set cas then Some (Some [])
                              else Option.bind (distance_to_ancestor db relative common_ancestor)
                                     (down_path db common_ancestor relative)) of
                          None \<Rightarrow> None
                        | Some his_down \<Rightarrow>
                            Some (path_from_segments db self relative common_ancestor
                                    my_down his_down compact)))))"

text \<open>
  The steps that \<open>path_to_relative\<close> builds first: the start, then every later
  individual of the path up, each as a tuple.
\<close>

definition start_and_parents :: "iid \<Rightarrow> iid list \<Rightarrow> step list" where
  "start_and_parents self xs = PyTuple self ''start'' # map (\<lambda>step. PyTuple step ''parent'') xs"

section \<open>Example data\<close>

text \<open>An individual and a family with the given links and no events.\<close>

definition person :: "fid list \<Rightarrow> fid list \<Rightarrow> individual" where
  "person pfs fs =
     \<lparr> i_line = Line 0 [] ''INDI'' [] [], i_parent_families = pfs, i_families = fs,
       birth_events = [], death_events = [], i_other_events = [] \<rparr>"

definition couple :: "iid option \<Rightarrow> iid option \<Rightarrow> iid list \<Rightarrow> family" where
  "couple h w cs =
     \<lparr> f_line = Line 0 [] ''FAM'' [] [], f_husband = h, f_wife = w, f_children = cs,
       marriage_events = [], f_other_events = [] \<rparr>"

text \<open>
  Seven individuals and three families. Family 0: husband 0, wife 5, children 1 and 3.
  Family 1: husband 1, wife 6, children 2 and 3 (individual 3 is a child of both
  families, as an adopted child is). Family 2: husband 3, child 4.
\<close>

definition kin :: gedcom where
  "kin =
     \<lparr> individual_at = (\<lambda>i. if i = 0 then person [] [0]
                   else if i = 1 then person [0] [1]
                   else if i = 2 then person [1] []
                   else if i = 3 then person [1, 0] [2]
                   else if i = 4 then person [2] []
                   else if i = 5 then person [] [0]
                   else if i = 6 then person [] [1]
                   else person [] []),
       family_at = (\<lambda>f. if f = 0 then couple (Some 0) (Some 5) [1, 3]
                  else if f = 1 then couple (Some 1) (Some 6) [2, 3]
                  else if f = 2 then couple (Some 3) None [4]
                  else couple None None []) \<rparr>"

text \<open>
  A marriage of siblings. Family 0: husband 3, children 1 and 2. Family 1: husband 1,
  wife 2, child 0. Family 0 is reached from individual 0 along two paths of the same
  length, through the father and through the mother.
\<close>

definition collapse_kin :: gedcom where
  "collapse_kin =
     \<lparr> individual_at = (\<lambda>i. if i = 0 then person [1] []
                   else if i = 1 then person [0] [1]
                   else if i = 2 then person [0] [1]
                   else if i = 3 then person [] [0]
                   else person [] []),
       family_at = (\<lambda>f. if f = 0 then couple (Some 3) None [1, 2]
                  else if f = 1 then couple (Some 1) (Some 2) [0]
                  else couple None None []) \<rparr>"

text \<open>
  A father with two marriages. Individual 5 is the husband of family 0 (wife 6) and of
  family 1 (wife 7); individual 0 is a child of both families.
\<close>

definition twice_kin :: gedcom where
  "twice_kin =
     \<lparr> individual_at = (\<lambda>i. if i = 0 then person [0, 1] []
                   else if i = 5 then person [] [0, 1]
                   else if i = 6 then person [] [0]
                   else if i = 7 then person [] [1]
                   else person [] []),
       family_at = (\<lambda>f. if f = 0 then couple (Some 5) (Some 6) [0]
                  else if f = 1 then couple (Some 5) (Some 7) [0]
                  else couple None None []) \<rparr>"

text \<open>
  An individual record with three FAMC lines, the second of which names a family that
  the registry does not hold, and the object store made of it.
\<close>

definition adopted_line :: line where
  "adopted_line =
     Line 0 ''@I1@'' ''INDI'' []
       [Line 1 [] ''NAME'' ''Ann /Roe/'' [],
        Line 1 [] ''FAMC'' ''@F1@'' [],
        Line 1 [] ''FAMC'' ''@F9@'' [],
        Line 1 [] ''FAMC'' ''@F2@'' []]"

definition adopted_registry :: "string \<rightharpoonup> fid" where
  "adopted_registry = [''@F1@'' \<mapsto> 1, ''@F2@'' \<mapsto> 2]"

definition adopted :: gedcom where
  "adopted =
     \<lparr> individual_at =
         (\<lambda>i. case Individual_init adopted_registry adopted_line of
                Inr x \<Rightarrow> x
              | Inl err \<Rightarrow> person [] []),
       family_at = (\<lambda>f. couple None None []) \<rparr>"

text \<open>
  Cyclic data. Family 0 has husband 0 and child 0: individual 0 is listed as his own
  father. Family 1: husband 0, wife 1, child 2. Family 2: husband 3, child 1.
  So individual 3 is a grandparent of individual 2, through the mother 1.
\<close>

definition loop_kin :: gedcom where
  "loop_kin =
     \<lparr> individual_at = (\<lambda>i. if i = 0 then person [0] [0, 1]
                   else if i = 1 then person [2] [1]
                   else if i = 2 then person [1] []
                   else if i = 3 then person [] [2]
                   else person [] []),
       family_at = (\<lambda>f. if f = 0 then couple (Some 0) None [0]
                  else if f = 1 then couple (Some 0) (Some 1) [2]
                  else if f = 2 then couple (Some 3) None [1]
                  else couple None None []) \<rparr>"

section \<open>Records: what the accessors return\<close>

lemma children_tags_loop_eq:
  "children_tags_loop t cs acc = acc @ filter (\<lambda>c. tag c = t) cs"
  by (induction cs arbitrary: acc) simp_all

lemma children_tags_eq: "children_tags self t = filter (\<lambda>c. tag c = t) (children_lines self)"
  by (simp add: children_tags_def children_tags_loop_eq)

lemma children_tag_records_loop_eq:
  "children_tag_records_loop d es acc = Inr (acc @ List.map_filter (\<lambda>e. d (val e)) es)"
proof (induction es arbitrary: acc)
  case Nil
  show ?case by simp
next
  case (Cons e es)
  show ?case
    by (cases "d (val e)") (simp_all add: getitem_def Cons.IH)
qed

lemma children_tag_records_resolved:
  "children_tag_records d self t = Inr (records_referenced_by_tag d self t)"
  by (simp add: children_tag_records_def records_referenced_by_tag_def
      children_tags_eq children_tag_records_loop_eq)

text \<open>
  C9. Dereferencing the child lines with a tag never raises: a child whose value is not
  a key of the registry is left out, and the records of the other children are returned
  in file order.
\<close>

theorem children_tag_records_omits_unresolved:
  "children_tag_records d self t = Inr (records_referenced_by_tag d self t)"
  by (rule children_tag_records_resolved)

lemma Individual_init_eq:
  "Individual_init d self =
     Inr \<lparr> i_line = self,
           i_parent_families = records_referenced_by_tag d self ''FAMC'',
           i_families = records_referenced_by_tag d self ''FAMS'',
           birth_events = parse_generic_event_list self ''BIRT'',
           death_events = parse_generic_event_list self ''DEAT'',
           i_other_events =
             concat (map (parse_generic_event_list self) individual_event_types) \<rparr>"
  by (simp add: Individual_init_def get_parent_families_def get_families_def
      children_tag_records_resolved)

text \<open>
  C7. An individual initialised from its line holds the families of its FAMC lines that
  the registry resolves, in file order. With two or more parent families
  \<open>parent_family\<close> raises MultipleReturnValues (the spec's AmbiguousResult); with none
  it returns None.
\<close>

theorem parent_family_ambiguous:
  "(Individual_init d l = Inr (individual_at db self) \<longrightarrow>
      parent_families db self = records_referenced_by_tag d l ''FAMC'') \<and>
   (2 \<le> length (parent_families db self) \<longrightarrow>
      parent_family db self = Inl MultipleReturnValues) \<and>
   (length (parent_families db self) = 0 \<longrightarrow> parent_family db self = Inr None)"
proof (intro conjI impI)
  assume "Individual_init d l = Inr (individual_at db self)"
  then have "individual_at db self =
      \<lparr> i_line = l,
        i_parent_families = records_referenced_by_tag d l ''FAMC'',
        i_families = records_referenced_by_tag d l ''FAMS'',
        birth_events = parse_generic_event_list l ''BIRT'',
        death_events = parse_generic_event_list l ''DEAT'',
        i_other_events = concat (map (parse_generic_event_list l) individual_event_types) \<rparr>"
    by (simp add: Individual_init_eq)
  then show "parent_families db self = records_referenced_by_tag d l ''FAMC''"
    by (simp add: parent_families_def)
next
  assume "2 \<le> length (parent_families db self)"
  then have "length (parent_families db self) \<noteq> 0" "length (parent_families db self) \<noteq> 1"
    "1 < length (parent_families db self)"
    by arith+
  then show "parent_family db self = Inl MultipleReturnValues"
    unfolding parent_family_def by (simp only: if_False if_True)
next
  assume "length (parent_families db self) = 0"
  then show "parent_family db self = Inr None"
    by (simp add: parent_family_def)
qed

lemma adopted_init:
  "Individual_init adopted_registry adopted_line = Inr (individual_at adopted 0)"
  by (simp add: adopted_def Individual_init_eq)

lemma adopted_famc: "records_referenced_by_tag adopted_registry adopted_line ''FAMC'' = [1, 2]"
  by (simp add: records_referenced_by_tag_def adopted_line_def adopted_registry_def)

theorem parent_family_ambiguous_witness:
  "parent_families adopted 0 = [1, 2] \<and>
   parent_family adopted 0 = Inl MultipleReturnValues \<and>
   parent_family kin 0 = Inr None"
proof -
  have pf: "parent_families adopted 0 = [1, 2]"
    using parent_family_ambiguous [of adopted_registry adopted_line adopted 0]
      adopted_init adopted_famc by simp
  have "parent_family adopted 0 = Inl MultipleReturnValues"
    using parent_family_ambiguous [of adopted_registry adopted_line adopted 0] pf by simp
  moreover have "length (parent_families kin 0) = 0"
    by (simp add: parent_families_def kin_def person_def)
  then have "parent_family kin 0 = Inr None"
    using parent_family_ambiguous [of adopted_registry adopted_line kin 0] by blast
  ultimately show ?thesis using pf by simp
qed

lemma fathers_loop_eq: "fathers_loop db fs acc = acc @ List.map_filter (husband db) fs"
  by (induction fs arbitrary: acc) (simp_all split: option.splits)





text \<open>
  One man who is the husband of both parent families is listed twice.
\<close>

lemma twice_kin_father: "father twice_kin 0 = Inr (Listed [5, 5])"
  by (simp add: father_def fathers_loop_eq List.map_filter_simps parent_families_def
      husband_def twice_kin_def person_def couple_def)



text \<open>
  C10. For a family without marriage events \<open>marriage\<close> raises IndexError, while
  \<open>birth\<close> and \<open>death\<close> of an individual without such events return None.
\<close>

theorem marriage_raises_birth_death_absent:
  "(marriage_events (family_at db f) = [] \<longrightarrow> marriage db f = Inl IndexError) \<and>
   (birth_events (individual_at db i) = [] \<longrightarrow> birth db i = Inr None) \<and>
   (death_events (individual_at db i) = [] \<longrightarrow> death db i = Inr None)"
  by (simp add: marriage_def birth_def death_def)

theorem marriage_raises_birth_death_absent_witness:
  "marriage kin 0 = Inl IndexError \<and> birth kin 0 = Inr None \<and> death kin 0 = Inr None"
  using marriage_raises_birth_death_absent [of kin 0 0]
  by (simp add: kin_def person_def couple_def)

section \<open>Ancestry: what the searches return\<close>

lemma generation_Nil [simp]: "generation db n [] = []"
  by (induction n) simp_all

lemma generation_append: "generation db n (xs @ ys) = generation db n xs @ generation db n ys"
  by (induction n arbitrary: xs ys) simp_all

lemma generation_concat: "generation db n (concat xss) = concat (map (generation db n) xss)"
  by (induction xss) (simp_all add: generation_append)

lemma generation_singletons: "generation db n xs = concat (map (\<lambda>x. generation db n [x]) xs)"
  using generation_concat [of db n "map (\<lambda>x. [x]) xs"] by (simp add: comp_def)

lemma generation_empty_iff:
  "generation db n xs = [] \<longleftrightarrow> (\<forall>x \<in> set xs. generation db n [x] = [])"
  by (subst generation_singletons) simp

lemma set_generation:
  "set (generation db n xs) = (\<Union>x \<in> set xs. set (generation db n [x]))"
  by (subst generation_singletons) simp

lemma generation_Suc_mem:
  "c \<in> set (generation db (Suc k) [x]) \<longleftrightarrow>
   (\<exists>p \<in> set (parents db x). c \<in> set (generation db k [p]))"
  using set_generation [of db k "parents db x"] by simp

lemma generation_Suc_empty:
  "generation db (Suc n) [x] = [] \<longleftrightarrow> (\<forall>p \<in> set (parents db x). generation db n [p] = [])"
  using generation_empty_iff [of db n "parents db x"] by simp

lemma is_ancestor_loop_all_Some:
  assumes "\<And>x. x \<in> set xs \<Longrightarrow> f x = Some (g x)"
  shows "is_ancestor_loop f xs = Some (\<exists>x \<in> set xs. g x)"
  using assms by (induction xs) auto

lemma is_ancestor_acyclic:
  "generation db n [self] = [] \<Longrightarrow>
   is_ancestor db self candidate =
     Some (\<exists>k. 0 < k \<and> k < n \<and> candidate \<in> set (generation db k [self]))"
proof (induction n arbitrary: self)
  case 0
  then show ?case by simp
next
  case (Suc n)
  have dead: "generation db n [p] = []" if "p \<in> set (parents db self)" for p
    using Suc.prems that by (simp only: generation_Suc_empty)
  have calls: "is_ancestor db p candidate =
      Some (\<exists>k. 0 < k \<and> k < n \<and> candidate \<in> set (generation db k [p]))"
    if "p \<in> set (parents db self)" for p
    using Suc.IH [OF dead [OF that]] .
  have loop: "is_ancestor_loop (\<lambda>parent. is_ancestor db parent candidate) (parents db self) =
      Some (\<exists>p \<in> set (parents db self).
              \<exists>k. 0 < k \<and> k < n \<and> candidate \<in> set (generation db k [p]))"
    by (rule is_ancestor_loop_all_Some) (rule calls)
  have reach: "(\<exists>k. 0 < k \<and> k < Suc n \<and> candidate \<in> set (generation db k [self])) \<longleftrightarrow>
      candidate \<in> set (parents db self) \<or>
      (\<exists>p \<in> set (parents db self).
         \<exists>k. 0 < k \<and> k < n \<and> candidate \<in> set (generation db k [p]))" (is "?L \<longleftrightarrow> ?A \<or> ?B")
  proof
    assume ?L
    then obtain k where k: "0 < k" "k < Suc n" "candidate \<in> set (generation db k [self])"
      by blast
    then obtain j where j: "k = Suc j" by (cases k) auto
    from k(3) j obtain p where p: "p \<in> set (parents db self)"
      "candidate \<in> set (generation db j [p])"
      by (auto simp only: generation_Suc_mem)
    show "?A \<or> ?B"
    proof (cases j)
      case 0
      with p show ?thesis by simp
    next
      case (Suc i)
      with p k j have "0 < j \<and> j < n \<and> candidate \<in> set (generation db j [p])"
        by simp
      with p(1) show ?thesis by blast
    qed
  next
    assume "?A \<or> ?B"
    then show ?L
    proof
      assume a: ?A
      then have "candidate \<in> set (generation db (Suc 0) [self])" by simp
      moreover have "Suc 0 < Suc n"
      proof (cases n)
        case 0
        with dead a show ?thesis by auto
      qed simp
      ultimately show ?L by blast
    next
      assume ?B
      then obtain p k where pk: "p \<in> set (parents db self)" "0 < k" "k < n"
        "candidate \<in> set (generation db k [p])" by blast
      then have "candidate \<in> set (generation db (Suc k) [self])"
        by (auto simp only: generation_Suc_mem)
      with pk show ?L by (intro exI [of _ "Suc k"]) simp
    qed
  qed
  show ?case
    by (subst is_ancestor.simps) (simp add: is_parent_def loop reach del: generation.simps)
qed

lemma kin_parents:
  "parents kin =
     (\<lambda>i. if i = 1 then [0, 5] else if i = 2 then [1, 6]
          else if i = 3 then [1, 6, 0, 5] else if i = 4 then [3] else [])"
  by (rule ext)
    (simp add: parents_def fam_parents_def parent_families_def husband_def wife_def
      kin_def person_def couple_def)

lemma loop_kin_parents:
  "parents loop_kin =
     (\<lambda>i. if i = 0 then [0] else if i = 1 then [3] else if i = 2 then [0, 1] else [])"
  by (rule ext)
    (simp add: parents_def fam_parents_def parent_families_def husband_def wife_def
      loop_kin_def person_def couple_def)

lemma kin_generation_2: "generation kin 3 [2] = []"
  by (simp add: numeral_3_eq_3 kin_parents)

text \<open>
  C2, as the code has it. \<open>is_ancestor\<close> returns whenever some generation of
  ancestors of the individual is empty, that is, whenever no cycle lies above it.
\<close>

theorem is_ancestor_terminates_acyclic:
  "generation db n [self] = [] \<Longrightarrow> \<exists>b. is_ancestor db self candidate = Some b"
  by (simp add: is_ancestor_acyclic)

theorem is_ancestor_terminates_acyclic_witness:
  "\<exists>b. is_ancestor kin 2 4 = Some b"
  using is_ancestor_terminates_acyclic [of kin 3 2 4] kin_generation_2 by simp

lemma is_ancestor_own_father:
  assumes "is_ancestor db self c = Some y"
  shows "\<not> (db = loop_kin \<and> self = 0 \<and> c = 3)"
proof (rule is_ancestor.raw_induct
    [where P = "\<lambda>db self c y. \<not> (db = loop_kin \<and> self = 0 \<and> c = 3)", OF _ assms])
  fix f :: "gedcom \<Rightarrow> iid \<Rightarrow> iid \<Rightarrow> bool option" and db self c y
  assume IH: "\<And>db self c y. f db self c = Some y \<Longrightarrow> \<not> (db = loop_kin \<and> self = 0 \<and> c = 3)"
  assume body: "(if is_parent db self c then Some True
                 else is_ancestor_loop (\<lambda>parent. f db parent c) (parents db self)) = Some y"
  show "\<not> (db = loop_kin \<and> self = 0 \<and> c = 3)"
  proof
    assume a: "db = loop_kin \<and> self = 0 \<and> c = 3"
    with body obtain b where "f loop_kin 0 3 = Some b"
      by (auto simp: is_parent_def loop_kin_parents split: bind_splits)
    from IH [OF this] show False by simp
  qed
qed

text \<open>
  C2 as stated fails: individual 0 of \<open>loop_kin\<close> is listed as his own father, and the
  search for an ancestor he does not have never returns.
\<close>

theorem is_ancestor_cycle_counterexample: "is_ancestor loop_kin 0 3 = None"
  using is_ancestor_own_father [of loop_kin 0 3] by (cases "is_ancestor loop_kin 0 3") auto


lemma generation_add: "generation db (n + m) xs = generation db m (generation db n xs)"
  by (induction n arbitrary: xs) simp_all

lemma generation_dead_later:
  assumes "generation db n xs = []" and "n \<le> k"
  shows "generation db k xs = []"
proof -
  from assms(2) have "k = n + (k - n)" by simp
  then have "generation db k xs = generation db (k - n) (generation db n xs)"
    using generation_add [of db n "k - n" xs] by simp
  with assms(1) show ?thesis by simp
qed

lemma is_ancestor_parent: "candidate \<in> set (parents db self) \<Longrightarrow> is_ancestor db self candidate = Some True"
  by (subst is_ancestor.simps) (simp add: is_parent_def)

text \<open>
  C6, as the code has it. \<open>is_ancestor\<close> returns True for every parent; and, when no
  cycle lies above the individual (some generation of its ancestors is empty), for every
  ancestor at any depth.
\<close>

theorem is_ancestor_true_for_ancestors:
  "(candidate \<in> set (parents db self) \<longrightarrow> is_ancestor db self candidate = Some True) \<and>
   (generation db n [self] = [] \<and> 0 < k \<and> candidate \<in> set (generation db k [self]) \<longrightarrow>
      is_ancestor db self candidate = Some True)"
proof (intro conjI impI)
  assume "candidate \<in> set (parents db self)"
  then show "is_ancestor db self candidate = Some True" by (rule is_ancestor_parent)
next
  assume a: "generation db n [self] = [] \<and> 0 < k \<and> candidate \<in> set (generation db k [self])"
  have "k < n"
  proof (rule ccontr)
    assume "\<not> k < n"
    then have "generation db k [self] = []"
      using a generation_dead_later [of db n "[self]" k] by simp
    with a show False by simp
  qed
  with a have ex: "\<exists>j. 0 < j \<and> j < n \<and> candidate \<in> set (generation db j [self])" by blast
  from a have "is_ancestor db self candidate =
      Some (\<exists>j. 0 < j \<and> j < n \<and> candidate \<in> set (generation db j [self]))"
    by (intro is_ancestor_acyclic) blast
  with ex show "is_ancestor db self candidate = Some True" by simp
qed

theorem is_ancestor_true_for_ancestors_witness:
  "is_ancestor kin 2 1 = Some True \<and> is_ancestor kin 2 5 = Some True"
proof -
  have "is_ancestor kin 2 1 = Some True"
    using is_ancestor_true_for_ancestors [of 1 kin 2 0 0] by (simp add: kin_parents)
  moreover have "generation kin 3 [2] = [] \<and> (0::nat) < 2 \<and> 5 \<in> set (generation kin 2 [2])"
    by (simp add: numeral_3_eq_3 numeral_2_eq_2 kin_parents)
  then have "is_ancestor kin 2 5 = Some True"
    using is_ancestor_true_for_ancestors [of 5 kin 2 3 2] by blast
  ultimately show ?thesis by simp
qed

text \<open>
  C6 as stated fails: in \<open>loop_kin\<close> individual 3 is a parent of 1, who is a parent
  of 2, but the search from 2 asks the father 0 first, whose own ancestry is a cycle, and
  never returns.
\<close>

theorem is_ancestor_misses_grandparent_counterexample:
  "1 \<in> set (parents loop_kin 2) \<and> 3 \<in> set (parents loop_kin 1) \<and>
   is_ancestor loop_kin 2 3 = None"
proof -
  have "is_ancestor loop_kin 0 3 = None"
    using is_ancestor_own_father [of loop_kin 0 3] by (cases "is_ancestor loop_kin 0 3") auto
  then have "is_ancestor loop_kin 2 3 = None"
    by (subst is_ancestor.simps) (simp add: is_parent_def loop_kin_parents)
  then show ?thesis by (simp add: loop_kin_parents)
qed

lemma distance_loop_found:
  "a \<in> set (generation db k xs) \<Longrightarrow> (\<forall>j<k. a \<notin> set (generation db j xs)) \<Longrightarrow>
   distance_loop db a xs d = Some (Some (d + k))"
proof (induction k arbitrary: xs d)
  case 0
  then have "xs \<noteq> []" "a \<in> set xs" by auto
  then show ?case by (subst distance_loop.simps) simp
next
  case (Suc k)
  from Suc.prems(2) have notin: "a \<notin> set xs" by force
  from Suc.prems(1) have "xs \<noteq> []" by auto
  have "\<forall>j<k. a \<notin> set (generation db j (concat (map (parents db) xs)))"
  proof (intro allI impI)
    fix j assume "j < k"
    then have "Suc j < Suc k" by simp
    with Suc.prems(2) have "a \<notin> set (generation db (Suc j) xs)" by blast
    then show "a \<notin> set (generation db j (concat (map (parents db) xs)))" by simp
  qed
  moreover from Suc.prems(1) have "a \<in> set (generation db k (concat (map (parents db) xs)))"
    by simp
  ultimately have "distance_loop db a (concat (map (parents db) xs)) (d + 1) = Some (Some (d + 1 + k))"
    by (rule Suc.IH [rotated])
  with notin \<open>xs \<noteq> []\<close> show ?case by (subst distance_loop.simps) simp
qed

lemma distance_loop_exhausted:
  "generation db k xs = [] \<Longrightarrow> (\<forall>j<k. a \<notin> set (generation db j xs)) \<Longrightarrow>
   distance_loop db a xs d = Some None"
proof (induction k arbitrary: xs d)
  case 0
  then show ?case by (subst distance_loop.simps) simp
next
  case (Suc k)
  show ?case
  proof (cases "xs = []")
    case True
    then show ?thesis by (subst distance_loop.simps) simp
  next
    case False
    from Suc.prems(2) have notin: "a \<notin> set xs" by force
    have "\<forall>j<k. a \<notin> set (generation db j (concat (map (parents db) xs)))"
    proof (intro allI impI)
      fix j assume "j < k"
      then have "Suc j < Suc k" by simp
      with Suc.prems(2) have "a \<notin> set (generation db (Suc j) xs)" by blast
      then show "a \<notin> set (generation db j (concat (map (parents db) xs)))" by simp
    qed
    moreover from Suc.prems(1) have "generation db k (concat (map (parents db) xs)) = []"
      by simp
    ultimately have "distance_loop db a (concat (map (parents db) xs)) (d + 1) = Some None"
      by (rule Suc.IH [rotated])
    with notin False show ?thesis by (subst distance_loop.simps) simp
  qed
qed

text \<open>
  C4, as the code has it. The distance from an individual to itself is 0; the distance
  to a grandparent that is neither the individual itself nor also one of its parents is 2;
  and when a generation is empty and no generation before it holds the sought ancestor,
  the search returns None.
\<close>

theorem distance_to_ancestor_cases:
  "distance_to_ancestor db i i = Some (Some 0) \<and>
   (p \<in> set (parents db k) \<and> g \<in> set (parents db p) \<and> g \<noteq> k \<and> g \<notin> set (parents db k) \<longrightarrow>
      distance_to_ancestor db k g = Some (Some 2)) \<and>
   (generation db n [i] = [] \<and> (\<forall>j<n. a \<notin> set (generation db j [i])) \<longrightarrow>
      distance_to_ancestor db i a = Some None)"
proof (intro conjI impI)
  show "distance_to_ancestor db i i = Some (Some 0)"
    unfolding distance_to_ancestor_def by (subst distance_loop.simps) simp
next
  assume a: "p \<in> set (parents db k) \<and> g \<in> set (parents db p) \<and> g \<noteq> k \<and> g \<notin> set (parents db k)"
  then have in2: "g \<in> set (generation db 2 [k])"
    by (auto simp: numeral_2_eq_2)
  have "\<forall>j<2. g \<notin> set (generation db j [k])"
  proof (intro allI impI)
    fix j :: nat assume "j < 2"
    then have "j = 0 \<or> j = Suc 0" by arith
    with a show "g \<notin> set (generation db j [k])" by auto
  qed
  with in2 have "distance_loop db g [k] 0 = Some (Some (0 + 2))"
    by (rule distance_loop_found)
  then show "distance_to_ancestor db k g = Some (Some 2)"
    by (simp add: distance_to_ancestor_def)
next
  assume "generation db n [i] = [] \<and> (\<forall>j<n. a \<notin> set (generation db j [i]))"
  then show "distance_to_ancestor db i a = Some None"
    unfolding distance_to_ancestor_def using distance_loop_exhausted [of db n "[i]" a 0] by blast
qed

theorem distance_to_ancestor_cases_witness:
  "distance_to_ancestor kin 2 2 = Some (Some 0) \<and>
   distance_to_ancestor kin 2 0 = Some (Some 2) \<and>
   distance_to_ancestor kin 2 4 = Some None"
proof -
  have g: "generation kin 3 [2] = []"
    by (simp add: numeral_3_eq_3 kin_parents)
  have "\<forall>j<3. (4::nat) \<notin> set (generation kin j [2])"
  proof (intro allI impI)
    fix j :: nat assume "j < 3"
    then have "j = 0 \<or> j = Suc 0 \<or> j = Suc (Suc 0)" by arith
    then show "(4::nat) \<notin> set (generation kin j [2])" by (auto simp: kin_parents)
  qed
  with g have "distance_to_ancestor kin 2 4 = Some None"
    using distance_to_ancestor_cases [of kin 2 1 2 0 3 4] by blast
  moreover have "1 \<in> set (parents kin 2) \<and> 0 \<in> set (parents kin 1) \<and> (0::nat) \<noteq> 2 \<and>
      0 \<notin> set (parents kin 2)"
    by (simp add: kin_parents)
  then have "distance_to_ancestor kin 2 0 = Some (Some 2)"
    using distance_to_ancestor_cases [of kin 2 1 2 0 3 4] by blast
  moreover have "distance_to_ancestor kin 2 2 = Some (Some 0)"
    using distance_to_ancestor_cases [of kin 2 1 2 0 3 4] by blast
  ultimately show ?thesis by simp
qed

text \<open>
  C4 as stated fails: in \<open>kin\<close> individual 0 is a grandparent of 3 through the parent
  1, and also a parent of 3; the search finds him in the first generation and returns 1.
\<close>

theorem distance_to_grandparent_counterexample:
  "1 \<in> set (parents kin 3) \<and> 0 \<in> set (parents kin 1) \<and>
   distance_to_ancestor kin 3 0 = Some (Some 1)"
proof -
  have "distance_to_ancestor kin 3 0 = Some (Some (Suc 0))"
    unfolding distance_to_ancestor_def
    by (subst distance_loop.simps, simp add: kin_parents, subst distance_loop.simps,
        simp add: kin_parents)
  then show ?thesis by (simp add: kin_parents)
qed

section \<open>Ancestor families: what the searches return\<close>

lemma fam_generation_Nil [simp]: "fam_generation db n [] = []"
  by (induction n) simp_all

lemma fam_generation_append:
  "fam_generation db n (xs @ ys) = fam_generation db n xs @ fam_generation db n ys"
  by (induction n arbitrary: xs ys) simp_all

lemma fam_generation_concat:
  "fam_generation db n (concat xss) = concat (map (fam_generation db n) xss)"
  by (induction xss) (simp_all add: fam_generation_append)

lemma fam_generation_Suc_empty:
  "fam_generation db (Suc n) fs = [] \<longleftrightarrow>
   (\<forall>g \<in> set fs. fam_generation db n (fam_parent_families db g) = [])"
  by (simp add: fam_generation_concat)

lemma fam_generation_Suc_mem:
  "h \<in> set (fam_generation db (Suc k) fs) \<longleftrightarrow>
   (\<exists>g \<in> set fs. h \<in> set (fam_generation db k (fam_parent_families db g)))"
  by (simp add: fam_generation_concat)

lemma collect_all_Some:
  assumes "\<And>x. x \<in> set xs \<Longrightarrow> f x = Some (g x)"
  shows "collect f xs = Some (concat (map g xs))"
  using assms by (induction xs) simp_all

lemma fam_ancestor_families_acyclic:
  "fam_generation db n (fam_parent_families db f) = [] \<Longrightarrow>
   \<exists>res. fam_ancestor_families_with_distance db f d = Some res \<and>
     (\<forall>h m. (h, m) \<in> set res \<longleftrightarrow>
        (\<exists>k<n. m = d + k \<and> h \<in> set (fam_generation db k (fam_parent_families db f))))"
proof (induction n arbitrary: f d)
  case 0
  then have "fam_parent_families db f = []" by simp
  then show ?case by (subst fam_ancestor_families_with_distance.simps) simp
next
  case (Suc n)
  let ?pf = "fam_parent_families db f"
  let ?g = "\<lambda>fam. the (fam_ancestor_families_with_distance db fam (d + 1))"
  have sub: "\<exists>res. fam_ancestor_families_with_distance db g (d + 1) = Some res \<and>
      (\<forall>h m. (h, m) \<in> set res \<longleftrightarrow>
         (\<exists>k<n. m = d + 1 + k \<and> h \<in> set (fam_generation db k (fam_parent_families db g))))"
    if "g \<in> set ?pf" for g
    using Suc.prems that by (intro Suc.IH) (simp only: fam_generation_Suc_empty)
  have calls: "fam_ancestor_families_with_distance db g (d + 1) = Some (?g g)"
    if "g \<in> set ?pf" for g
    using sub [OF that] by auto
  have mem: "(h, m) \<in> set (?g g) \<longleftrightarrow>
      (\<exists>k<n. m = d + 1 + k \<and> h \<in> set (fam_generation db k (fam_parent_families db g)))"
    if "g \<in> set ?pf" for g h m
    using sub [OF that] by auto
  have col: "collect (\<lambda>fam. fam_ancestor_families_with_distance db fam (d + 1)) ?pf =
      Some (concat (map ?g ?pf))"
    by (rule collect_all_Some) (rule calls)
  have res: "fam_ancestor_families_with_distance db f d =
      Some (map (\<lambda>fam. (fam, d)) ?pf @ concat (map ?g ?pf))"
    by (subst fam_ancestor_families_with_distance.simps) (simp only: col Option.bind.simps)
  have "(h, m) \<in> set (map (\<lambda>fam. (fam, d)) ?pf @ concat (map ?g ?pf)) \<longleftrightarrow>
      (\<exists>k<Suc n. m = d + k \<and> h \<in> set (fam_generation db k ?pf))" (is "?L \<longleftrightarrow> ?R") for h m
  proof
    assume ?L
    then consider "m = d" "h \<in> set ?pf" | g where "g \<in> set ?pf" "(h, m) \<in> set (?g g)"
      by auto
    then show ?R
    proof cases
      case 1
      then have "0 < Suc n \<and> m = d + 0 \<and> h \<in> set (fam_generation db 0 ?pf)" by simp
      then show ?thesis by blast
    next
      case 2
      then obtain k where k: "k < n" "m = d + 1 + k"
        "h \<in> set (fam_generation db k (fam_parent_families db g))"
        using mem by blast
      with 2(1) have "h \<in> set (fam_generation db (Suc k) ?pf)"
        by (auto simp only: fam_generation_Suc_mem)
      with k have "Suc k < Suc n \<and> m = d + Suc k \<and> h \<in> set (fam_generation db (Suc k) ?pf)"
        by simp
      then show ?thesis by blast
    qed
  next
    assume ?R
    then obtain k where k: "k < Suc n" "m = d + k" "h \<in> set (fam_generation db k ?pf)"
      by blast
    show ?L
    proof (cases k)
      case 0
      with k show ?thesis by auto
    next
      case (Suc j)
      with k(3) obtain g where g: "g \<in> set ?pf"
        "h \<in> set (fam_generation db j (fam_parent_families db g))"
        by (auto simp only: fam_generation_Suc_mem)
      with k Suc have "(h, m) \<in> set (?g g)" using mem [OF g(1)] by auto
      with g(1) show ?thesis by auto
    qed
  qed
  with res show ?case by blast
qed

lemma ancestor_families_acyclic:
  assumes "fam_generation db n (parent_families db self) = []"
  shows "\<exists>res. ancestor_families_with_distance db self = Some res \<and>
     sorted (map snd res) \<and> set res = families_by_generation db n self"
proof (cases n)
  case 0
  with assms have "parent_families db self = []" by simp
  with 0 show ?thesis
    by (simp add: ancestor_families_with_distance_def families_by_generation_def)
next
  case (Suc n')
  let ?pf = "parent_families db self"
  let ?g = "\<lambda>fam. (fam, 0::nat) # the (fam_ancestor_families_with_distance db fam 1)"
  have sub: "\<exists>res. fam_ancestor_families_with_distance db g 1 = Some res \<and>
      (\<forall>h m. (h, m) \<in> set res \<longleftrightarrow>
         (\<exists>k<n'. m = 1 + k \<and> h \<in> set (fam_generation db k (fam_parent_families db g))))"
    if "g \<in> set ?pf" for g
    using assms that unfolding Suc
    by (intro fam_ancestor_families_acyclic) (simp only: fam_generation_Suc_empty)
  have calls: "Option.bind (fam_ancestor_families_with_distance db g 1)
      (\<lambda>anc. Some ((g, 0) # anc)) = Some (?g g)" if "g \<in> set ?pf" for g
    using sub [OF that] by auto
  have mem: "(h, m) \<in> set (the (fam_ancestor_families_with_distance db g 1)) \<longleftrightarrow>
      (\<exists>k<n'. m = 1 + k \<and> h \<in> set (fam_generation db k (fam_parent_families db g)))"
    if "g \<in> set ?pf" for g h m
    using sub [OF that] by auto
  have col: "collect
      (\<lambda>fam. Option.bind (fam_ancestor_families_with_distance db fam 1)
               (\<lambda>anc. Some ((fam, 0) # anc))) ?pf =
      Some (concat (map ?g ?pf))"
    by (rule collect_all_Some) (rule calls)
  have res: "ancestor_families_with_distance db self =
      Some (sort_key snd (concat (map ?g ?pf)))"
    unfolding ancestor_families_with_distance_def by (simp only: col Option.bind.simps)
  have "(h, m) \<in> set (concat (map ?g ?pf)) \<longleftrightarrow> (h, m) \<in> families_by_generation db n self"
    (is "?L \<longleftrightarrow> ?R") for h m
  proof
    assume ?L
    then consider "m = 0" "h \<in> set ?pf"
      | g where "g \<in> set ?pf" "(h, m) \<in> set (the (fam_ancestor_families_with_distance db g 1))"
      by auto
    then show ?R
    proof cases
      case 1
      then show ?thesis by (simp add: families_by_generation_def Suc)
    next
      case 2
      then obtain k where k: "k < n'" "m = 1 + k"
        "h \<in> set (fam_generation db k (fam_parent_families db g))"
        using mem by blast
      with 2(1) have "h \<in> set (fam_generation db (Suc k) ?pf)"
        by (auto simp only: fam_generation_Suc_mem)
      with k show ?thesis by (simp add: families_by_generation_def Suc del: fam_generation.simps)
    qed
  next
    assume ?R
    then have k: "m < n" "h \<in> set (fam_generation db m ?pf)"
      by (simp_all add: families_by_generation_def)
    show ?L
    proof (cases m)
      case 0
      with k show ?thesis by auto
    next
      case (Suc j)
      with k(2) obtain g where g: "g \<in> set ?pf"
        "h \<in> set (fam_generation db j (fam_parent_families db g))"
        by (auto simp only: fam_generation_Suc_mem)
      with k \<open>n = Suc n'\<close> Suc
      have "(h, m) \<in> set (the (fam_ancestor_families_with_distance db g 1))"
        using mem [OF g(1)] by auto
      with g(1) show ?thesis by auto
    qed
  qed
  then have "set (concat (map ?g ?pf)) = families_by_generation db n self"
    by (intro set_eqI) (auto simp del: set_concat)
  with res show ?thesis by (simp del: set_concat)
qed


lemma families_listed_Nil [simp]: "families_listed db n d [] = []"
  by (induction n arbitrary: d) simp_all

lemma mset_families_listed_append:
  "mset (families_listed db n d (xs @ ys)) =
   mset (families_listed db n d xs) + mset (families_listed db n d ys)"
  by (induction n arbitrary: d xs ys) (simp_all add: ac_simps)

lemma mset_families_listed_concat:
  "mset (families_listed db n d (concat xss)) =
   (\<Sum>xs\<leftarrow>xss. mset (families_listed db n d xs))"
  by (induction xss) (simp_all add: mset_families_listed_append)

lemma sum_list_mset_cong:
  assumes "\<And>x. x \<in> set xs \<Longrightarrow> mset (r x) = F x"
  shows "mset (concat (map r xs)) = (\<Sum>x\<leftarrow>xs. F x)"
  using assms by (induction xs) simp_all

lemma sum_list_add_mset:
  "(\<Sum>x\<leftarrow>xs. add_mset (h x) (F x)) = mset (map h xs) + (\<Sum>x\<leftarrow>xs. F x)"
  by (induction xs) simp_all

lemma fam_ancestor_families_listed:
  "fam_generation db n (fam_parent_families db f) = [] \<Longrightarrow>
   \<exists>res. fam_ancestor_families_with_distance db f d = Some res \<and>
     mset res = mset (families_listed db n d (fam_parent_families db f))"
proof (induction n arbitrary: f d)
  case 0
  then have "fam_parent_families db f = []" by simp
  then show ?case by (subst fam_ancestor_families_with_distance.simps) simp
next
  case (Suc n)
  let ?pf = "fam_parent_families db f"
  let ?g = "\<lambda>fam. the (fam_ancestor_families_with_distance db fam (d + 1))"
  have sub: "\<exists>res. fam_ancestor_families_with_distance db g (d + 1) = Some res \<and>
      mset res = mset (families_listed db n (d + 1) (fam_parent_families db g))"
    if "g \<in> set ?pf" for g
    using Suc.prems that by (intro Suc.IH) (simp only: fam_generation_Suc_empty)
  have calls: "fam_ancestor_families_with_distance db g (d + 1) = Some (?g g)"
    if "g \<in> set ?pf" for g
    using sub [OF that] by auto
  have each: "mset (?g g) = mset (families_listed db n (Suc d) (fam_parent_families db g))"
    if "g \<in> set ?pf" for g
    using sub [OF that] by auto
  have col: "collect (\<lambda>fam. fam_ancestor_families_with_distance db fam (d + 1)) ?pf =
      Some (concat (map ?g ?pf))"
    by (rule collect_all_Some) (rule calls)
  have res: "fam_ancestor_families_with_distance db f d =
      Some (map (\<lambda>fam. (fam, d)) ?pf @ concat (map ?g ?pf))"
    by (subst fam_ancestor_families_with_distance.simps) (simp only: col Option.bind.simps)
  have "mset (concat (map ?g ?pf)) =
      (\<Sum>g\<leftarrow>?pf. mset (families_listed db n (Suc d) (fam_parent_families db g)))"
    by (rule sum_list_mset_cong) (rule each)
  also have "\<dots> = mset (families_listed db n (Suc d) (concat (map (fam_parent_families db) ?pf)))"
    by (simp add: mset_families_listed_concat comp_def)
  finally have "mset (map (\<lambda>fam. (fam, d)) ?pf @ concat (map ?g ?pf)) =
      mset (families_listed db (Suc n) d ?pf)"
    by simp
  with res show ?case by blast
qed

lemma ancestor_families_listed:
  assumes "fam_generation db n (parent_families db self) = []"
  shows "\<exists>res. ancestor_families_with_distance db self = Some res \<and>
     mset res = mset (families_listed db n 0 (parent_families db self))"
proof (cases n)
  case 0
  with assms have "parent_families db self = []" by simp
  with 0 show ?thesis by (simp add: ancestor_families_with_distance_def)
next
  case (Suc n')
  let ?pf = "parent_families db self"
  let ?r = "\<lambda>fam. the (fam_ancestor_families_with_distance db fam 1)"
  let ?g = "\<lambda>fam. (fam, 0::nat) # ?r fam"
  have sub: "\<exists>res. fam_ancestor_families_with_distance db g 1 = Some res \<and>
      mset res = mset (families_listed db n' 1 (fam_parent_families db g))"
    if "g \<in> set ?pf" for g
    using assms that unfolding Suc
    by (intro fam_ancestor_families_listed) (simp only: fam_generation_Suc_empty)
  have calls: "Option.bind (fam_ancestor_families_with_distance db g 1)
      (\<lambda>anc. Some ((g, 0) # anc)) = Some (?g g)" if "g \<in> set ?pf" for g
    using sub [OF that] by auto
  have each: "mset (?g g) =
      {#(g, 0)#} + mset (families_listed db n' (Suc 0) (fam_parent_families db g))"
    if "g \<in> set ?pf" for g
    using sub [OF that] by auto
  have col: "collect
      (\<lambda>fam. Option.bind (fam_ancestor_families_with_distance db fam 1)
               (\<lambda>anc. Some ((fam, 0) # anc))) ?pf =
      Some (concat (map ?g ?pf))"
    by (rule collect_all_Some) (rule calls)
  have res: "ancestor_families_with_distance db self =
      Some (sort_key snd (concat (map ?g ?pf)))"
    unfolding ancestor_families_with_distance_def by (simp only: col Option.bind.simps)
  have "mset (concat (map ?g ?pf)) =
      (\<Sum>g\<leftarrow>?pf. {#(g, 0)#} +
         mset (families_listed db n' (Suc 0) (fam_parent_families db g)))"
    by (rule sum_list_mset_cong) (rule each)
  also have "\<dots> = mset (map (\<lambda>g. (g, 0)) ?pf) +
      mset (families_listed db n' (Suc 0) (concat (map (fam_parent_families db) ?pf)))"
    by (simp add: sum_list_add_mset mset_families_listed_concat comp_def del: mset_map)
  finally have "mset (sort_key snd (concat (map ?g ?pf))) =
      mset (families_listed db n 0 ?pf)"
    unfolding Suc by simp
  with res show ?thesis by blast
qed


text \<open>
  C3, as the code has it. When no cycle lies in the family ancestry of the individual
  (some generation of its ancestor families is empty), \<open>ancestor_families_with_distance\<close>
  returns pairs sorted ascending by distance; it holds one pair \<open>(f, k)\<close> for every
  upward path of \<open>k\<close> steps from a parent family of the individual to the family \<open>f\<close>,
  no more and no fewer. So every ancestor family is listed with its minimal distance, again
  with every larger distance at which it is reached, and repeatedly where several paths
  have the same length.
\<close>

theorem ancestor_families_sorted_all_distances:
  "fam_generation db n (parent_families db self) = [] \<Longrightarrow>
   \<exists>res. ancestor_families_with_distance db self = Some res \<and>
     sorted (map snd res) \<and>
     mset res = mset (families_listed db n 0 (parent_families db self)) \<and>
     set res = families_by_generation db n self \<and>
     (\<forall>f \<in> fst ` set res. (f, minimal_distance db self f) \<in> set res)"
proof -
  assume dead: "fam_generation db n (parent_families db self) = []"
  then obtain res where res: "ancestor_families_with_distance db self = Some res"
    "sorted (map snd res)" "set res = families_by_generation db n self"
    using ancestor_families_acyclic by blast
  from dead res(1) have listed:
    "mset res = mset (families_listed db n 0 (parent_families db self))"
    using ancestor_families_listed [of db n self] by auto
  have "(f, minimal_distance db self f) \<in> set res" if "f \<in> fst ` set res" for f
  proof -
    from that res(3) obtain k where k: "k < n"
      "f \<in> set (fam_generation db k (parent_families db self))"
      by (auto simp: families_by_generation_def)
    from k(2) have "f \<in> set (fam_generation db (minimal_distance db self f)
        (parent_families db self))"
      unfolding minimal_distance_def by (rule LeastI)
    moreover from k(2) have "minimal_distance db self f \<le> k"
      unfolding minimal_distance_def by (rule Least_le)
    ultimately show ?thesis using k(1) res(3) by (simp add: families_by_generation_def)
  qed
  with res listed show ?thesis by blast
qed

lemma kin_parent_families:
  "parent_families kin =
     (\<lambda>i. if i = 1 then [0] else if i = 2 then [1] else if i = 3 then [1, 0]
          else if i = 4 then [2] else [])"
  by (rule ext) (simp add: parent_families_def kin_def person_def)

lemma kin_fam_parent_families:
  "fam_parent_families kin = (\<lambda>f. if f = 1 then [0] else if f = 2 then [1, 0] else [])"
  by (rule ext)
    (simp add: fam_parent_families_def parent_families_def husband_def wife_def
      kin_def person_def couple_def)

lemma kin_fam_ancestors_0: "fam_ancestor_families_with_distance kin 0 d = Some []"
  by (subst fam_ancestor_families_with_distance.simps) (simp add: kin_fam_parent_families)

lemma kin_fam_ancestors_1:
  "fam_ancestor_families_with_distance kin (Suc 0) d = Some [(0, d)]"
  by (subst fam_ancestor_families_with_distance.simps)
    (simp add: kin_fam_parent_families kin_fam_ancestors_0)

lemma kin_fam_ancestors_2:
  "fam_ancestor_families_with_distance kin 2 d = Some [(1, d), (0, d), (0, d + 1)]"
  by (subst fam_ancestor_families_with_distance.simps)
    (simp add: kin_fam_parent_families kin_fam_ancestors_0 kin_fam_ancestors_1)

lemma kin_ancestor_families_2: "ancestor_families_with_distance kin 2 = Some [(1, 0), (0, 1)]"
  by (simp add: ancestor_families_with_distance_def kin_parent_families kin_fam_ancestors_1)

lemma kin_ancestor_families_4:
  "ancestor_families_with_distance kin 4 = Some [(2, 0), (1, 1), (0, 1), (0, 2)]"
  by (simp add: ancestor_families_with_distance_def kin_parent_families kin_fam_ancestors_2)

lemma kin_fam_generation_4: "fam_generation kin 3 (parent_families kin 4) = []"
  by (simp add: numeral_3_eq_3 kin_parent_families kin_fam_parent_families)

lemma kin_fam_generation_2: "fam_generation kin 2 (parent_families kin 2) = []"
  by (simp add: numeral_2_eq_2 kin_parent_families kin_fam_parent_families)

lemma collapse_kin_parent_families:
  "parent_families collapse_kin =
     (\<lambda>i. if i = 0 then [1] else if i = 1 then [0] else if i = 2 then [0] else [])"
  by (rule ext) (simp add: parent_families_def collapse_kin_def person_def)

lemma collapse_kin_fam_parent_families:
  "fam_parent_families collapse_kin = (\<lambda>f. if f = 1 then [0, 0] else [])"
  by (rule ext)
    (simp add: fam_parent_families_def parent_families_def husband_def wife_def
      collapse_kin_def person_def couple_def)

lemma collapse_kin_fam_ancestors_0:
  "fam_ancestor_families_with_distance collapse_kin 0 d = Some []"
  by (subst fam_ancestor_families_with_distance.simps)
    (simp add: collapse_kin_fam_parent_families)

lemma collapse_kin_fam_ancestors_1:
  "fam_ancestor_families_with_distance collapse_kin (Suc 0) d = Some [(0, d), (0, d)]"
  by (subst fam_ancestor_families_with_distance.simps)
    (simp add: collapse_kin_fam_parent_families collapse_kin_fam_ancestors_0)

lemma collapse_kin_ancestor_families_0:
  "ancestor_families_with_distance collapse_kin 0 = Some [(1, 0), (0, 1), (0, 1)]"
  by (simp add: ancestor_families_with_distance_def collapse_kin_parent_families
      collapse_kin_fam_ancestors_1)

lemma collapse_kin_fam_generation_0:
  "fam_generation collapse_kin 2 (parent_families collapse_kin 0) = []"
  by (simp add: numeral_2_eq_2 collapse_kin_parent_families collapse_kin_fam_parent_families)

theorem ancestor_families_sorted_all_distances_witness:
  "(\<exists>res. ancestor_families_with_distance kin 4 = Some res \<and>
      sorted (map snd res) \<and> set res = families_by_generation kin 3 4 \<and>
      (0, minimal_distance kin 4 0) \<in> set res) \<and>
   ancestor_families_with_distance collapse_kin 0 = Some [(1, 0), (0, 1), (0, 1)] \<and>
   mset [(1, 0), (0, 1), (0, 1)] =
     mset (families_listed collapse_kin 2 0 (parent_families collapse_kin 0))"
proof -
  from ancestor_families_sorted_all_distances [OF kin_fam_generation_4]
  obtain res where res: "ancestor_families_with_distance kin 4 = Some res"
    "sorted (map snd res)" "set res = families_by_generation kin 3 4"
    "\<forall>f \<in> fst ` set res. (f, minimal_distance kin 4 f) \<in> set res"
    by blast
  from res(1) have "(0, 1) \<in> set res" by (auto simp: kin_ancestor_families_4)
  then have "0 \<in> fst ` set res" by force
  with res have first: "\<exists>res. ancestor_families_with_distance kin 4 = Some res \<and>
      sorted (map snd res) \<and> set res = families_by_generation kin 3 4 \<and>
      (0, minimal_distance kin 4 0) \<in> set res"
    by blast
  from ancestor_families_sorted_all_distances [OF collapse_kin_fam_generation_0]
  obtain res' where "ancestor_families_with_distance collapse_kin 0 = Some res'"
    "mset res' = mset (families_listed collapse_kin 2 0 (parent_families collapse_kin 0))"
    by blast
  then have "mset [(1, 0), (0, 1), (0, 1)] =
      mset (families_listed collapse_kin 2 0 (parent_families collapse_kin 0))"
    by (simp add: collapse_kin_ancestor_families_0)
  with first show ?thesis by (simp add: collapse_kin_ancestor_families_0)
qed

lemma kin_minimal_distance_0: "minimal_distance kin 4 0 = 1"
  unfolding minimal_distance_def
proof (rule Least_equality)
  show "0 \<in> set (fam_generation kin 1 (parent_families kin 4))"
    by (simp add: kin_parent_families kin_fam_parent_families)
next
  fix y assume "0 \<in> set (fam_generation kin y (parent_families kin 4))"
  then show "1 \<le> y" by (cases y) (simp_all add: kin_parent_families)
qed

text \<open>
  C3 as stated fails: family 0 of \<open>kin\<close> is a parent family of individual 3 and also a
  grandparent family (through family 1); for individual 4, a child of 3, it is listed with
  distance 1, its minimal distance, and again with distance 2.
\<close>

theorem ancestor_families_not_minimal_counterexample:
  "ancestor_families_with_distance kin 4 = Some [(2, 0), (1, 1), (0, 1), (0, 2)] \<and>
   minimal_distance kin 4 0 = 1"
  using kin_ancestor_families_4 kin_minimal_distance_0 by simp

section \<open>Common ancestors: what the search returns\<close>

lemma set_set_intersection_list [simp]:
  "set (set_intersection_list xs ys) = set xs \<inter> set ys"
  by (auto simp: set_intersection_list_def)

lemma fold_min_key:
  fixes k :: "'a \<Rightarrow> nat"
  shows "fold (\<lambda>y m. if k y < k m then y else m) xs x \<in> set (x # xs) \<and>
   (\<forall>z \<in> set (x # xs). k (fold (\<lambda>y m. if k y < k m then y else m) xs x) \<le> k z)"
proof (induction xs arbitrary: x)
  case Nil
  show ?case by simp
next
  case (Cons y ys)
  let ?x' = "if k y < k x then y else x"
  from Cons.IH [of ?x'] show ?case by (auto split: if_splits)
qed

lemma min_key_least:
  assumes "xs \<noteq> []"
  shows "\<exists>x. min_key k xs = Inr x \<and> x \<in> set xs \<and> (\<forall>z \<in> set xs. k x \<le> k z)"
proof -
  from assms obtain y ys where xs: "xs = y # ys" by (cases xs) auto
  show ?thesis unfolding xs using fold_min_key [of k ys y] by simp
qed

lemma closest_common_set:
  fixes my his :: "(fid \<times> nat) list"
  shows "\<exists>r. closest_common my his = Inr r \<and>
     (fst ` set my \<inter> fst ` set his = {} \<longrightarrow> r = []) \<and>
     (fst ` set my \<inter> fst ` set his \<noteq> {} \<longrightarrow>
        set r = {f \<in> fst ` set my \<inter> fst ` set his.
                  (f, Min {d. \<exists>g \<in> fst ` set my \<inter> fst ` set his. (g, d) \<in> set my})
                    \<in> set my})"
  (is "\<exists>r. _ \<and> (?common = {} \<longrightarrow> _) \<and> _")
proof (cases "?common = {}")
  case True
  then have "set_intersection_list (map fst my) (map fst his) = []"
    by (simp flip: set_empty)
  then have "closest_common my his = Inr []" by (simp add: closest_common_def)
  with True show ?thesis by simp
next
  case False
  define cwd where "cwd = set_intersection_list (map fst my) (map fst his)"
  define cmd where "cmd = filter (\<lambda>(fam, dist). fam \<in> set cwd) my"
  have cwd: "set cwd = ?common" by (simp add: cwd_def)
  from False have ne: "cwd \<noteq> []" unfolding cwd_def by (simp flip: set_empty)
  have set_cmd: "set cmd = {(f, d). (f, d) \<in> set my \<and> f \<in> ?common}"
    unfolding cmd_def using cwd by auto
  from False obtain f0 where f0: "f0 \<in> ?common" by auto
  then obtain d0 where "(f0, d0) \<in> set my" by auto
  with f0 have "(f0, d0) \<in> set cmd" unfolding set_cmd by blast
  then have "cmd \<noteq> []" by (metis empty_iff empty_set)
  from min_key_least [OF this, of snd]
  obtain fam md where mk: "min_key snd cmd = Inr (fam, md)" "(fam, md) \<in> set cmd"
    "\<forall>z \<in> set cmd. md \<le> snd z"
    by fastforce
  let ?D = "{d. \<exists>g \<in> ?common. (g, d) \<in> set my}"
  have "?D \<subseteq> snd ` set my" by force
  then have fin: "finite ?D" by (rule finite_subset) simp
  have "md \<in> ?D" using mk(2) unfolding set_cmd by blast
  moreover have "md \<le> d" if "d \<in> ?D" for d
  proof -
    from that obtain g where "g \<in> ?common" "(g, d) \<in> set my" by blast
    then have "(g, d) \<in> set cmd" unfolding set_cmd by blast
    with mk(3) show ?thesis by force
  qed
  ultimately have min: "Min ?D = md" using fin by (intro Min_eqI) auto
  define r where "r = map fst (filter (\<lambda>(fam, dist). dist = md) cmd)"
  have res: "closest_common my his = Inr r"
    using ne mk(1) by (simp add: closest_common_def Let_def cwd_def cmd_def r_def)
  have "f \<in> set r \<longleftrightarrow> f \<in> ?common \<and> (f, md) \<in> set my" for f
  proof
    assume "f \<in> set r"
    then obtain p where p: "p \<in> set cmd" "snd p = md" "fst p = f"
      unfolding r_def by auto
    from p(2,3) have "p = (f, md)" by auto
    with p(1) have "(f, md) \<in> set cmd" by simp
    then show "f \<in> ?common \<and> (f, md) \<in> set my" unfolding set_cmd by blast
  next
    assume "f \<in> ?common \<and> (f, md) \<in> set my"
    then have "(f, md) \<in> set cmd" unfolding set_cmd by blast
    then have "(f, md) \<in> set (filter (\<lambda>(fam, dist). dist = md) cmd)" by simp
    then have "fst (f, md) \<in> set r" unfolding r_def set_map by (rule imageI)
    then show "f \<in> set r" by simp
  qed
  then have "set r = {f \<in> ?common. (f, md) \<in> set my}" by blast
  with res min False show ?thesis by simp
qed


lemma common_ancestor_families_mutual:
  assumes "set (parent_families db a) \<inter> set (parent_families db b) \<noteq> {}"
  shows "\<exists>r. common_ancestor_families db a (Some b) = Some (Inr r) \<and>
     set r = set (parent_families db a) \<inter> set (parent_families db b)"
proof -
  have "set (mutual_parent_families db a b) =
      set (parent_families db a) \<inter> set (parent_families db b)"
    by (simp add: mutual_parent_families_def)
  moreover from this assms have "mutual_parent_families db a b \<noteq> []" by auto
  ultimately show ?thesis by (simp add: common_ancestor_families_def)
qed

lemma common_ancestor_families_acyclic:
  assumes disjoint: "set (parent_families db a) \<inter> set (parent_families db b) = {}"
    and dead_a: "fam_generation db n (parent_families db a) = []"
    and dead_b: "fam_generation db m (parent_families db b) = []"
  shows "\<exists>r. common_ancestor_families db a (Some b) = Some (Inr r) \<and>
     (common_families db n a m b = {} \<longrightarrow> r = []) \<and>
     (common_families db n a m b \<noteq> {} \<longrightarrow> set r = closest_families db n a m b)"
proof -
  from ancestor_families_acyclic [OF dead_a] obtain my
    where my: "ancestor_families_with_distance db a = Some my"
      "set my = families_by_generation db n a" by blast
  from ancestor_families_acyclic [OF dead_b] obtain his
    where his: "ancestor_families_with_distance db b = Some his"
      "set his = families_by_generation db m b" by blast
  from disjoint have "set (mutual_parent_families db a b) = {}"
    by (simp add: mutual_parent_families_def)
  then have mutual: "mutual_parent_families db a b = []" by simp
  have common: "common_families db n a m b = fst ` set my \<inter> fst ` set his"
    by (simp add: common_families_def my(2) his(2))
  show ?thesis
  proof (cases "my = [] \<or> his = []")
    case True
    then have "common_ancestor_families db a (Some b) = Some (Inr [])"
      using mutual my(1) his(1) by (auto simp: common_ancestor_families_def)
    moreover from True have "common_families db n a m b = {}"
      unfolding common by auto
    ultimately show ?thesis by simp
  next
    case False
    then have caf: "common_ancestor_families db a (Some b) = Some (closest_common my his)"
      using mutual my(1) his(1) by (simp add: common_ancestor_families_def)
    from closest_common_set [of my his] obtain r where r: "closest_common my his = Inr r"
      "fst ` set my \<inter> fst ` set his = {} \<longrightarrow> r = []"
      "fst ` set my \<inter> fst ` set his \<noteq> {} \<longrightarrow>
         set r = {f \<in> fst ` set my \<inter> fst ` set his.
                   (f, Min {d. \<exists>g \<in> fst ` set my \<inter> fst ` set his. (g, d) \<in> set my})
                     \<in> set my}"
      by blast
    have "closest_families db n a m b =
        {f \<in> fst ` set my \<inter> fst ` set his.
           (f, Min {d. \<exists>g \<in> fst ` set my \<inter> fst ` set his. (g, d) \<in> set my}) \<in> set my}"
      unfolding closest_families_def common my(2) ..
    with r caf common show ?thesis by simp
  qed
qed

text \<open>
  C1, as the code has it. When the two individuals share a parent family,
  \<open>common_ancestor_families\<close> returns the shared parent families. Otherwise, when no
  cycle lies in the family ancestry of either (some generation of ancestor families is
  empty for each), it returns the empty list if they have no ancestor family in common,
  and else exactly the common families that the first individual meets at the least
  distance at which it meets any common family.
\<close>

theorem common_ancestor_families_closest:
  "(set (parent_families db a) \<inter> set (parent_families db b) \<noteq> {} \<longrightarrow>
      (\<exists>r. common_ancestor_families db a (Some b) = Some (Inr r) \<and>
           set r = set (parent_families db a) \<inter> set (parent_families db b))) \<and>
   (set (parent_families db a) \<inter> set (parent_families db b) = {} \<and>
    fam_generation db n (parent_families db a) = [] \<and>
    fam_generation db m (parent_families db b) = [] \<longrightarrow>
      (\<exists>r. common_ancestor_families db a (Some b) = Some (Inr r) \<and>
           (common_families db n a m b = {} \<longrightarrow> r = []) \<and>
           (common_families db n a m b \<noteq> {} \<longrightarrow> set r = closest_families db n a m b)))"
  using common_ancestor_families_mutual [of db a b]
    common_ancestor_families_acyclic [of db a b n m]
  by blast


lemma kin_common_ancestor_families_2_4:
  "common_ancestor_families kin 2 (Some 4) = Some (Inr [1])"
  by (simp add: common_ancestor_families_def mutual_parent_families_def
      set_intersection_list_def kin_parent_families kin_ancestor_families_2
      kin_ancestor_families_4 closest_common_def)

theorem common_ancestor_families_closest_witness:
  "(\<exists>r. common_ancestor_families kin 2 (Some 3) = Some (Inr r) \<and> set r = {1}) \<and>
   common_ancestor_families kin 2 (Some 4) = Some (Inr [1]) \<and>
   closest_families kin 2 2 3 4 = {1}"
proof -
  have "set (parent_families kin 2) \<inter> set (parent_families kin 3) \<noteq> {}"
    by (simp add: kin_parent_families)
  then have "\<exists>r. common_ancestor_families kin 2 (Some 3) = Some (Inr r) \<and>
      set r = set (parent_families kin 2) \<inter> set (parent_families kin 3)"
    using common_ancestor_families_closest [of kin 2 3 0 0] by blast
  then have sib: "\<exists>r. common_ancestor_families kin 2 (Some 3) = Some (Inr r) \<and> set r = {1}"
    by (simp add: kin_parent_families)
  have "set (parent_families kin 2) \<inter> set (parent_families kin 4) = {}"
    by (simp add: kin_parent_families)
  then obtain r where r: "common_ancestor_families kin 2 (Some 4) = Some (Inr r)"
    "common_families kin 2 2 3 4 \<noteq> {} \<longrightarrow> set r = closest_families kin 2 2 3 4"
    using common_ancestor_families_closest [of kin 2 4 2 3]
      kin_fam_generation_2 kin_fam_generation_4 by blast
  have "(1, 0) \<in> families_by_generation kin 2 2" "(1, 1) \<in> families_by_generation kin 3 4"
    by (simp_all add: families_by_generation_def kin_parent_families kin_fam_parent_families)
  then have "1 \<in> fst ` families_by_generation kin 2 2"
    "1 \<in> fst ` families_by_generation kin 3 4"
    by force+
  then have "common_families kin 2 2 3 4 \<noteq> {}"
    unfolding common_families_def by blast
  with r have "set r = closest_families kin 2 2 3 4" "r = [1]"
    by (simp_all add: kin_common_ancestor_families_2_4)
  then have "closest_families kin 2 2 3 4 = {1}" by auto
  with sib show ?thesis by (simp add: kin_common_ancestor_families_2_4)
qed

lemma loop_kin_parent_families:
  "parent_families loop_kin =
     (\<lambda>i. if i = 0 then [0] else if i = 1 then [2] else if i = 2 then [1] else [])"
  by (rule ext) (simp add: parent_families_def loop_kin_def person_def)

lemma loop_kin_fam_parent_families:
  "fam_parent_families loop_kin = (\<lambda>f. if f = 0 then [0] else if f = 1 then [0, 2] else [])"
  by (rule ext)
    (simp add: fam_parent_families_def parent_families_def husband_def wife_def
      loop_kin_def person_def couple_def)

lemma fam_ancestors_own_parent:
  assumes "fam_ancestor_families_with_distance db f d = Some y"
  shows "\<not> (db = loop_kin \<and> f = 0)"
proof (rule fam_ancestor_families_with_distance.raw_induct
    [where P = "\<lambda>db f d y. \<not> (db = loop_kin \<and> f = 0)", OF _ assms])
  fix g :: "gedcom \<Rightarrow> fid \<Rightarrow> nat \<Rightarrow> (fid \<times> nat) list option" and db f d y
  assume IH: "\<And>db f d y. g db f d = Some y \<Longrightarrow> \<not> (db = loop_kin \<and> f = 0)"
  assume body: "Option.bind
      (collect (\<lambda>fam. g db fam (d + 1)) (fam_parent_families db f))
      (\<lambda>anc. Some (map (\<lambda>fam. (fam, d)) (fam_parent_families db f) @ anc)) = Some y"
  show "\<not> (db = loop_kin \<and> f = 0)"
  proof
    assume "db = loop_kin \<and> f = 0"
    with body obtain r where "g loop_kin 0 (d + 1) = Some r"
      by (auto simp: loop_kin_fam_parent_families split: bind_splits)
    from IH [OF this] show False by simp
  qed
qed

lemma loop_kin_fam_ancestors_0: "fam_ancestor_families_with_distance loop_kin 0 d = None"
  using fam_ancestors_own_parent [of loop_kin 0 d]
  by (cases "fam_ancestor_families_with_distance loop_kin 0 d") auto

lemma loop_kin_fam_ancestors_1:
  "fam_ancestor_families_with_distance loop_kin (Suc 0) d = None"
  by (subst fam_ancestor_families_with_distance.simps)
    (simp add: loop_kin_fam_parent_families loop_kin_fam_ancestors_0)

lemma loop_kin_ancestor_families_2: "ancestor_families_with_distance loop_kin 2 = None"
  by (simp add: ancestor_families_with_distance_def loop_kin_parent_families
      loop_kin_fam_ancestors_1)

text \<open>
  C1 as stated fails: individuals 2 and 4 of \<open>loop_kin\<close> share no parent family, and 4
  has no ancestor family at all, so the intersection is empty; but the family ancestry of
  2 runs into the cycle of family 0, and the call never returns.
\<close>

theorem common_ancestor_families_cycle_counterexample:
  "parent_families loop_kin 4 = [] \<and>
   common_ancestor_families loop_kin 2 (Some 4) = None"
  by (simp add: common_ancestor_families_def mutual_parent_families_def
      set_intersection_list_def loop_kin_parent_families loop_kin_ancestor_families_2)

section \<open>Paths: what the compact block does\<close>

lemma kin_children:
  "children kin =
     (\<lambda>i. if i = 0 then [1, 3] else if i = 1 then [2, 3] else if i = 3 then [4]
          else if i = 5 then [1, 3] else if i = 6 then [2, 3] else [])"
  by (rule ext) (simp add: children_def families_def fam_children_def kin_def person_def couple_def)

lemma kin_fam_parents:
  "fam_parents kin =
     (\<lambda>f. if f = 0 then [0, 5] else if f = 1 then [1, 6] else if f = 2 then [3] else [])"
  by (rule ext) (simp add: fam_parents_def husband_def wife_def kin_def couple_def)

lemma kin_common_ancestors_2_4: "common_ancestors kin 2 (Some 4) = Some (Inr [1, 6])"
  by (simp add: common_ancestors_def kin_common_ancestor_families_2_4 kin_fam_parents)

lemma kin_distance_2_1: "distance_to_ancestor kin 2 (Suc 0) = Some (Some (Suc 0))"
  unfolding distance_to_ancestor_def
  by (subst distance_loop.simps, simp add: kin_parents, subst distance_loop.simps, simp)

lemma kin_distance_4_1: "distance_to_ancestor kin 4 (Suc 0) = Some (Some 2)"
  unfolding distance_to_ancestor_def
  by (subst distance_loop.simps, simp add: kin_parents, subst distance_loop.simps,
      simp add: kin_parents, subst distance_loop.simps, simp)

lemma kin_down_path_1_2: "down_path kin (Suc 0) 2 (Some (Suc 0)) = Some (Some [1, 2])"
  by (subst down_path.simps) (simp add: kin_children)

lemma kin_down_path_2_4: "down_path kin 2 4 (Some (Suc 0)) = Some None"
  by (subst down_path.simps) (simp add: kin_children)

lemma kin_down_path_3_4: "down_path kin 3 4 (Some (Suc 0)) = Some (Some [3, 4])"
  by (subst down_path.simps) (simp add: kin_children)

lemma kin_down_path_1_4: "down_path kin (Suc 0) 4 (Some 2) = Some (Some [1, 3, 4])"
  by (subst down_path.simps) (simp add: kin_children kin_down_path_2_4 kin_down_path_3_4)

lemma kin_sibling_1_3: "is_sibling kin (Suc 0) 3"
  by (simp add: is_sibling_def mutual_parent_families_def set_intersection_list_def
      kin_parent_families)

lemma compact_block_fallback:
  "length his_path < 2 \<Longrightarrow>
   compact_block db common_ancestor full_path his_path =
     Inr (full_path @ [PyList common_ancestor ''child''])"
  by (simp add: compact_block_def index_def index_last_def)

lemma last_start_and_parents:
  "\<exists>p l. last (start_and_parents self xs) = PyTuple p l"
  by (cases xs rule: rev_cases) (simp_all add: start_and_parents_def)

lemma compact_block_tuples:
  assumes "compact_block db ca (start_and_parents self xs) hp = Inr fp'"
  shows "fp' = start_and_parents self xs @ [PyList ca ''child'']"
proof -
  obtain p l where "last (start_and_parents self xs) = PyTuple p l"
    using last_start_and_parents by blast
  moreover have "start_and_parents self xs \<noteq> []" by (simp add: start_and_parents_def)
  ultimately show ?thesis
    using assms
    by (auto simp: compact_block_def index_last_def index_def split: if_splits)
qed

lemma labels_start_and_parents:
  "''sibling'' \<notin> step_label ` set (start_and_parents self xs)"
  by (auto simp: start_and_parents_def)

lemma assembled_path_no_sibling:
  assumes "(case (if compact then compact_block db ca (start_and_parents self xs) hp
                  else Inr (start_and_parents self xs)) of
              Inl err \<Rightarrow> Inl err
            | Inr fp' \<Rightarrow> Inr (Some (fp' @ map (\<lambda>step. PyTuple step ''child'') ys))) =
           Inr (Some p)"
  shows "''sibling'' \<notin> step_label ` set p"
proof (cases compact)
  case True
  with assms obtain fp' where fp': "compact_block db ca (start_and_parents self xs) hp = Inr fp'"
    "p = fp' @ map (\<lambda>step. PyTuple step ''child'') ys"
    by (auto split: sum.splits)
  from compact_block_tuples [OF fp'(1)] fp'(2) labels_start_and_parents [of self xs]
  show ?thesis by auto
next
  case False
  with assms have "p = start_and_parents self xs @ map (\<lambda>step. PyTuple step ''child'') ys"
    by simp
  with labels_start_and_parents [of self xs] show ?thesis by auto
qed

lemma path_from_segments_no_sibling:
  assumes "path_from_segments db self relative ca my_down his_down compact = Inr (Some p)"
  shows "''sibling'' \<notin> step_label ` set p"
proof -
  from assms obtain a b where ab: "my_down = Some a" "his_down = Some b"
    by (auto simp: path_from_segments_def split: option.splits)
  define pr2 where "pr2 =
    (if relative \<in> set (rev a) then (upto_first relative (rev a), [relative])
     else (rev a, rev b))"
  define pr3 where "pr3 =
    (if self \<in> set (snd pr2) then ([self], upto_first self (snd pr2)) else pr2)"
  have "path_from_segments db self relative ca my_down his_down compact =
      (case (if compact
             then compact_block db ca (start_and_parents self (drop 1 (fst pr3))) (rev (snd pr3))
             else Inr (start_and_parents self (drop 1 (fst pr3)))) of
         Inl err \<Rightarrow> Inl err
       | Inr fp' \<Rightarrow>
           Inr (Some (fp' @ map (\<lambda>step. PyTuple step ''child'') (drop 1 (rev (snd pr3))))))"
    unfolding path_from_segments_def ab pr2_def pr3_def start_and_parents_def
    by (simp add: Let_def cong: sum.case_cong)
  with assms show ?thesis by (intro assembled_path_no_sibling) simp
qed

lemma path_to_relative_no_sibling:
  assumes "path_to_relative db self relative compact = Some (Inr (Some p))"
  shows "''sibling'' \<notin> step_label ` set p"
  using assms unfolding path_to_relative_def Let_def
  by (auto split: option.splits sum.splits if_splits dest!: path_from_segments_no_sibling)


lemma kin_common_ancestors_4_2: "common_ancestors kin 4 (Some 2) = Some (Inr [1, 6, 0, 5])"
  by (simp add: common_ancestors_def common_ancestor_families_def mutual_parent_families_def
      set_intersection_list_def kin_parent_families kin_ancestor_families_2
      kin_ancestor_families_4 closest_common_def kin_fam_parents)

lemma kin_siblings_2_3: "is_sibling kin 3 2 \<and> \<not> is_sibling kin 1 2"
  by (simp add: is_sibling_def mutual_parent_families_def set_intersection_list_def
      kin_parent_families)

lemma kin_path_4_2_compact:
  "path_to_relative kin 4 2 True =
     Some (Inr (Some [PyTuple 4 ''start'', PyTuple 3 ''parent'', PyTuple 1 ''parent'',
                      PyList 1 ''child'', PyTuple 2 ''child'']))"
  using kin_siblings_2_3
  by (simp add: path_to_relative_def kin_parents kin_children kin_common_ancestors_4_2
      kin_distance_2_1 kin_distance_4_1 kin_down_path_1_2 kin_down_path_1_4
      path_from_segments_def compact_block_def index_def index_last_def)

text \<open>
  C5. The compact block exists to replace the hop over the common ancestor by one step
  labelled sibling, but it never does: the last step of \<open>full_path\<close> is a tuple, so
  whenever the sibling check succeeds the assignment to its label raises TypeError, and no
  path that \<open>path_to_relative\<close> returns has a sibling step
  (\<open>path_to_relative_no_sibling\<close>). In \<open>kin\<close> the path from 2 to 4 runs over the
  common ancestor 1 and on through 3; 1 and 3 share the parent family 0. Without
  \<open>compact\<close> the path is returned, with \<open>compact\<close> the call raises. When the check
  cannot be made, the ancestor is appended (\<open>compact_block_fallback\<close>).
\<close>

theorem path_to_relative_compact_raises:
  "is_sibling kin 1 3 \<and>
   path_to_relative kin 2 4 False =
     Some (Inr (Some [PyTuple 2 ''start'', PyTuple 1 ''parent'',
                      PyTuple 3 ''child'', PyTuple 4 ''child''])) \<and>
   path_to_relative kin 2 4 True = Some (Inl TypeError)"
  by (simp add: path_to_relative_def kin_parents kin_children kin_common_ancestors_2_4
      kin_distance_2_1 kin_distance_4_1 kin_down_path_1_2 kin_down_path_1_4
      path_from_segments_def compact_block_def index_def index_last_def kin_sibling_1_3)

end
